theory Spec2Isabelle
  imports Main "HOL-Library.Word" "HOL-Library.Multiset"
    "HOL-Library.Char_ord" "HOL-Library.List_Lexorder"
begin

section \<open>Strings, separators and path components\<close>

text \<open>
  Paths are byte strings. \<open>splitOn\<close> is the split of a string at every occurrence of a
  one-character separator (\<^verbatim>\<open>path.split('/')\<close> in the TypeScript sources,
  \<^verbatim>\<open>strings.Split(p, "/")\<close> in Go): the result is never empty, and an empty input
  gives one empty piece.
\<close>

fun splitOn :: "char \<Rightarrow> string \<Rightarrow> string list" where
  "splitOn c [] = [[]]"
| "splitOn c (x # xs) =
     (if x = c then [] # splitOn c xs
      else (case splitOn c xs of
              [] \<Rightarrow> [[x]]
            | w # ws \<Rightarrow> (x # w) # ws))"

text \<open>\<^verbatim>\<open>parts.join(sep)\<close>.\<close>

fun joinWith :: "string \<Rightarrow> string list \<Rightarrow> string" where
  "joinWith sep [] = []"
| "joinWith sep [p] = p"
| "joinWith sep (p # q # ps) = p @ sep @ joinWith sep (q # ps)"

text \<open>\<^verbatim>\<open>path.split('/').filter(Boolean)\<close>: the non-empty pieces between slashes.\<close>

definition pathParts :: "string \<Rightarrow> string list" where
  "pathParts path = filter (\<lambda>s. s \<noteq> []) (splitOn CHR ''/'' path)"

section \<open>The virtual file system mirror (utils/virtualFs.ts)\<close>

text \<open>
  \<^verbatim>\<open>VfsNode\<close> is a tagged union of a file (name, cid, timestamp) and a folder (name and
  an array of children).
\<close>

datatype VfsNode =
    VfsFile (name: string) (cid: string) (timestamp: string)
  | VfsFolder (name: string) (children: "VfsNode list")

definition createVirtualFs :: VfsNode where
  "createVirtualFs = VfsFolder ''/'' []"

lemma find_size_less [termination_simp]:
  "find P cs = Some c \<Longrightarrow> size c < Suc (size_list size cs)"
  by (induction cs) (auto split: if_splits)

text \<open>
  The loop of \<^verbatim>\<open>findNode\<close> over the parts of the path: a file on the way, or a part
  that no child bears, gives \<^verbatim>\<open>null\<close>; \<^verbatim>\<open>children.find\<close> takes the first child of
  that name, whatever its type.
\<close>

fun findNodeParts :: "string list \<Rightarrow> VfsNode \<Rightarrow> VfsNode option" where
  "findNodeParts [] current = Some current"
| "findNodeParts (part # parts) (VfsFile n c t) = None"
| "findNodeParts (part # parts) (VfsFolder n cs) =
     (case find (\<lambda>child. name child = part) cs of
        None \<Rightarrow> None
      | Some next \<Rightarrow> findNodeParts parts next)"

definition findNode :: "string \<Rightarrow> VfsNode \<Rightarrow> VfsNode option" where
  "findNode path root = findNodeParts (pathParts path) root"

text \<open>
  \<^verbatim>\<open>addFile\<close> pushes onto the children array of the node that \<^verbatim>\<open>findNode\<close> returned,
  which is an object inside the tree under \<^verbatim>\<open>root\<close>. The functional model rebuilds the
  tree along the same walk: at each part the first child of that name is the one replaced.
\<close>

fun replaceFirst :: "('a \<Rightarrow> bool) \<Rightarrow> ('a \<Rightarrow> 'a) \<Rightarrow> 'a list \<Rightarrow> 'a list" where
  "replaceFirst P f [] = []"
| "replaceFirst P f (x # xs) = (if P x then f x # xs else x # replaceFirst P f xs)"

lemma replaceFirst_cong [fundef_cong]:
  "xs = ys \<Longrightarrow> (\<And>x. x \<in> set ys \<Longrightarrow> f x = g x) \<Longrightarrow> replaceFirst P f xs = replaceFirst P g ys"
  by (induction ys arbitrary: xs) auto

fun pushAt :: "string list \<Rightarrow> VfsNode \<Rightarrow> VfsNode \<Rightarrow> VfsNode" where
  "pushAt parts new (VfsFile n c t) = VfsFile n c t"
| "pushAt [] new (VfsFolder n cs) = VfsFolder n (cs @ [new])"
| "pushAt (part # parts) new (VfsFolder n cs) =
     VfsFolder n (replaceFirst (\<lambda>child. name child = part) (pushAt parts new) cs)"

text \<open>
  \<^verbatim>\<open>addFile(root, path, cid)\<close>. The timestamp \<^verbatim>\<open>new Date().toISOString()\<close> is read
  from the clock; it is a parameter here.
\<close>

definition addFile :: "VfsNode \<Rightarrow> string \<Rightarrow> string \<Rightarrow> string \<Rightarrow> VfsNode" where
  "addFile root path cid' ts =
     (let parts = pathParts path in
      if parts = [] then root
      else
        let fileName = last parts;
            folderPath = ''/'' @ joinWith ''/'' (butlast parts)
        in (case findNode folderPath root of
              Some (VfsFolder n cs) \<Rightarrow>
                pushAt (pathParts folderPath) (VfsFile fileName cid' ts) root
            | _ \<Rightarrow> root))"

text \<open>The folder path that \<^verbatim>\<open>addFile\<close> computes from its argument (\<^verbatim>\<open>folderPath\<close>).\<close>

definition folderPathOf :: "string \<Rightarrow> string" where
  "folderPathOf path = ''/'' @ joinWith ''/'' (butlast (pathParts path))"

section \<open>Go's path package, as the commands use it\<close>

text \<open>
  Modelled from the spec: \<^verbatim>\<open>gopath.Clean\<close>, \<^verbatim>\<open>gopath.Split\<close>, \<^verbatim>\<open>gopath.Base\<close>,
  \<^verbatim>\<open>gopath.Dir\<close> and \<^verbatim>\<open>strings.TrimRight\<close> belong to Go's standard library and are
  not among the sources. The spec asks of the normalisation that it collapses \<open>.\<close>,
  \<open>..\<close> and redundant separators; the definitions below follow the library's
  algorithm for it: one pass over the bytes of the path, writing into an output buffer
  of which \<open>dotdot\<close> marks the prefix that a \<open>..\<close> element may not remove.
\<close>

text \<open>
  The backtracking of a \<open>..\<close> element, after the write index has been decremented once:
  \<^verbatim>\<open>for out.w > dotdot && out.index(out.w) != '/' { out.w-- }\<close>.
\<close>

fun backtrackW :: "string \<Rightarrow> nat \<Rightarrow> nat \<Rightarrow> nat" where
  "backtrackW buf dotdot w =
     (if w > dotdot \<and> buf ! w \<noteq> CHR ''/'' then backtrackW buf dotdot (w - 1) else w)"

declare backtrackW.simps [simp del]

function cleanLoop :: "bool \<Rightarrow> string \<Rightarrow> string \<Rightarrow> nat \<Rightarrow> string" where
  "cleanLoop rooted [] out dotdot = out"
| "cleanLoop rooted (c # rest) out dotdot =
     (if c = CHR ''/'' then
        \<comment> \<open>empty path element\<close>
        cleanLoop rooted rest out dotdot
      else if c = CHR ''.'' \<and> (rest = [] \<or> hd rest = CHR ''/'') then
        \<comment> \<open>\<open>.\<close> element\<close>
        cleanLoop rooted rest out dotdot
      else if c = CHR ''.'' \<and> hd rest = CHR ''.'' \<and> (tl rest = [] \<or> hd (tl rest) = CHR ''/'') then
        \<comment> \<open>\<open>..\<close> element: remove to last slash\<close>
        (if length out > dotdot then
           cleanLoop rooted (tl rest) (take (backtrackW out dotdot (length out - 1)) out) dotdot
         else if \<not> rooted then
           (let out' = (if length out > 0 then out @ ''/'' else out) @ ''..''
            in cleanLoop rooted (tl rest) out' (length out'))
         else cleanLoop rooted (tl rest) out dotdot)
      else
        \<comment> \<open>real path element: add slash if needed, copy element\<close>
        (let out' = (if rooted \<and> length out \<noteq> 1 \<or> \<not> rooted \<and> length out \<noteq> 0
                     then out @ ''/'' else out)
         in cleanLoop rooted (dropWhile (\<lambda>x. x \<noteq> CHR ''/'') (c # rest))
              (out' @ takeWhile (\<lambda>x. x \<noteq> CHR ''/'') (c # rest)) dotdot))"
  by pat_completeness auto
termination
proof (relation "measure (\<lambda>(rooted, path, out, dotdot). length path)")
  show "wf (measure (\<lambda>(rooted, path, out, dotdot). length path))"
    by simp
next
  fix rooted :: bool and c :: char and rest out :: string and dotdot :: nat and out' :: string
  assume "c \<noteq> CHR ''/''"
  then have "dropWhile (\<lambda>x. x \<noteq> CHR ''/'') (c # rest) = dropWhile (\<lambda>x. x \<noteq> CHR ''/'') rest"
    by simp
  moreover have "length (dropWhile (\<lambda>x. x \<noteq> CHR ''/'') rest) \<le> length rest"
    by (rule length_dropWhile_le)
  ultimately show "((rooted, dropWhile (\<lambda>x. x \<noteq> CHR ''/'') (c # rest),
                     out' @ takeWhile (\<lambda>x. x \<noteq> CHR ''/'') (c # rest), dotdot),
                    (rooted, c # rest, out, dotdot))
                   \<in> measure (\<lambda>(rooted, path, out, dotdot). length path)"
    by simp
qed (auto simp: less_Suc_eq_le intro: le_trans[OF diff_le_self])

definition Clean :: "string \<Rightarrow> string" where
  "Clean path =
     (if path = [] then ''.''
      else
        let rooted = (hd path = CHR ''/'');
            out = (if rooted
                   then cleanLoop True (tl path) ''/'' 1
                   else cleanLoop False path [] 0)
        in if out = [] then ''.'' else out)"

text \<open>
  \<^verbatim>\<open>Split\<close> cuts immediately after the final slash; without a slash the directory
  part is empty.
\<close>

fun lastIndexSlash :: "string \<Rightarrow> nat option" where
  "lastIndexSlash [] = None"
| "lastIndexSlash (c # cs) =
     (case lastIndexSlash cs of
        Some i \<Rightarrow> Some (Suc i)
      | None \<Rightarrow> if c = CHR ''/'' then Some 0 else None)"

definition Split :: "string \<Rightarrow> string \<times> string" where
  "Split path =
     (case lastIndexSlash path of
        None \<Rightarrow> ([], path)
      | Some i \<Rightarrow> (take (Suc i) path, drop (Suc i) path))"

text \<open>\<^verbatim>\<open>strings.TrimRight(s, "/")\<close>: all trailing slashes are removed.\<close>

definition TrimRightSlash :: "string \<Rightarrow> string" where
  "TrimRightSlash s = rev (dropWhile (\<lambda>c. c = CHR ''/'') (rev s))"

definition Base :: "string \<Rightarrow> string" where
  "Base path =
     (if path = [] then ''.''
      else
        let path1 = TrimRightSlash path;
            path2 = (case lastIndexSlash path1 of
                       Some i \<Rightarrow> drop (Suc i) path1
                     | None \<Rightarrow> path1)
        in if path2 = [] then ''/'' else path2)"

definition Dir :: "string \<Rightarrow> string" where
  "Dir path = Clean (fst (Split path))"

section \<open>Errors of the files commands\<close>

text \<open>
  One constructor for each error the commands build or pass on. \<open>ErrNotExist\<close> is
  \<^verbatim>\<open>os.ErrNotExist\<close>; \<open>ErrWrap\<close> is \<^verbatim>\<open>fmt.Errorf("%s: %w", path, err)\<close>;
  \<open>ErrStore\<close> stands for a failure of the block store or of another collaborator.
\<close>

datatype cmdError =
    ErrPathEmpty
  | ErrPathNoLeadingSlash
  | ErrNotExist
  | ErrNotADirectory
  | ErrWasNotAFile string
  | ErrNegativeOffset
  | ErrOffsetPastEnd int int
  | ErrNegativeCount
  | ErrCannotDeleteRoot
  | ErrUseDashR
  | ErrExpectedDirectory
  | ErrNotAValidPath string cmdError
  | ErrWrap string cmdError
  | ErrCantRemoveSomeFiles
  | ErrFilesCpInvalidUnixFS
  | ErrFilesCpInvalidUnixFSWrap cmdError
  | ErrCpCannotGetNode string cmdError
  | ErrCpCannotUnlink cmdError
  | ErrCpCannotPut string cmdError
  | ErrCpCannotFlush string cmdError
  | ErrCpCannotFlushParent string cmdError
  | ErrNotADirectoryAt string
  | ErrNotAFileAt string
  | ErrIndexOutOfRange
  | ErrStore string

text \<open>
  \<^verbatim>\<open>checkPath\<close>: the check that the commands run on a path argument before they do
  anything else with it.
\<close>

definition checkPath :: "string \<Rightarrow> cmdError + string" where
  "checkPath p =
     (if length p = 0 then Inl ErrPathEmpty
      else if hd p \<noteq> CHR ''/'' then Inl ErrPathNoLeadingSlash
      else
        let cleaned = Clean p;
            cleaned = (if last p = CHR ''/'' \<and> p \<noteq> ''/'' then cleaned @ ''/'' else cleaned)
        in Inr cleaned)"

text \<open>
  The normalisation of an absolute path in the words of its description, for comparison
  with the byte-level pass of \<open>Clean\<close>: the path is cut at its separators; an empty
  component (a redundant separator) and a component \<open>.\<close> are dropped, a component
  \<open>..\<close> removes the component before it, if there is one, and any other component is
  kept; the result is the root followed by the kept components, one separator between
  two of them.
\<close>

fun normParts :: "string list \<Rightarrow> string list \<Rightarrow> string list" where
  "normParts kept [] = kept"
| "normParts kept (c # cs) =
     (if c = [] \<or> c = ''.'' then normParts kept cs
      else if c = ''..'' then normParts (butlast kept) cs
      else normParts (kept @ [c]) cs)"

definition renderAbs :: "string list \<Rightarrow> string" where
  "renderAbs kept = ''/'' @ joinWith ''/'' kept"

definition normalizeAbs :: "string \<Rightarrow> string" where
  "normalizeAbs p = renderAbs (normParts [] (splitOn CHR ''/'' p))"

text \<open>Components as a normalised path has them: none is empty, none holds a separator.\<close>

definition plainParts :: "string list \<Rightarrow> bool" where
  "plainParts kept \<longleftrightarrow> (\<forall>c\<in>set kept. c \<noteq> [] \<and> CHR ''/'' \<notin> set c)"

section \<open>The mutable file system the commands operate on\<close>

text \<open>
  Modelled from the spec: the MFS library (\<^verbatim>\<open>mfs.Root\<close>, \<^verbatim>\<open>mfs.Directory\<close>,
  \<^verbatim>\<open>mfs.File\<close>, \<^verbatim>\<open>mfs.Lookup\<close>, \<^verbatim>\<open>Directory.Child\<close>, \<^verbatim>\<open>Directory.Unlink\<close>,
  \<^verbatim>\<open>File.Open\<close> and the descriptor's \<^verbatim>\<open>Size\<close>, \<^verbatim>\<open>Seek\<close> and read) is not among
  the sources. The spec describes it as a tree: a node is a file, which wraps its
  content, or a directory, a mapping from names to nodes that is listed in its natural
  order. An association list keeps that order; \<open>map_of\<close> is the lookup of a name.
\<close>

type_synonym bytes = "char list"

datatype mfsNode =
    File (content: bytes)
  | Directory (entries: "(string \<times> mfsNode) list")

lemma map_of_size_less [termination_simp]:
  "map_of es n = Some c \<Longrightarrow> size c < Suc (size_list (size_prod (\<lambda>_. 0) size) es)"
  by (induction es) (auto split: if_splits)

text \<open>
  The walk of the resolver over the components of a path (spec, Path Resolver): a
  component below a node that is not a directory fails with the not-a-directory error,
  a name the directory does not hold fails with the not-found error
  (\<^verbatim>\<open>os.ErrNotExist\<close>), and no component at all gives the node itself.
\<close>

fun walk :: "string list \<Rightarrow> mfsNode \<Rightarrow> cmdError + mfsNode" where
  "walk [] nd = Inr nd"
| "walk (p # ps) (File c) = Inl ErrNotADirectory"
| "walk (p # ps) (Directory es) =
     (case map_of es p of
        None \<Rightarrow> Inl ErrNotExist
      | Some child \<Rightarrow> walk ps child)"

text \<open>
  \<^verbatim>\<open>mfs.Lookup(root, path)\<close>. The normalisation that the spec ascribes to the resolver
  is done by \<^verbatim>\<open>checkPath\<close>, which the commands run before the lookup; the lookup walks
  the non-empty components between the slashes, so that \<open>/\<close> and the empty path give the
  root.
\<close>

definition Lookup :: "mfsNode \<Rightarrow> string \<Rightarrow> cmdError + mfsNode" where
  "Lookup root path = walk (pathParts path) root"

text \<open>\<^verbatim>\<open>Directory.Child(name)\<close>: the node of that name, or the not-found error.\<close>

definition Child :: "(string \<times> mfsNode) list \<Rightarrow> string \<Rightarrow> cmdError + mfsNode" where
  "Child es n = (case map_of es n of None \<Rightarrow> Inl ErrNotExist | Some c \<Rightarrow> Inr c)"

text \<open>
  \<^verbatim>\<open>Directory.Unlink(name)\<close> removes the entry of that name from the directory and
  fails with the not-found error when there is none; it only detaches the entry.
\<close>

definition unlinkEntries ::
  "(string \<times> mfsNode) list \<Rightarrow> string \<Rightarrow> cmdError + (string \<times> mfsNode) list" where
  "unlinkEntries es n =
     (case map_of es n of
        None \<Rightarrow> Inl ErrNotExist
      | Some c \<Rightarrow> Inr (filter (\<lambda>e. fst e \<noteq> n) es))"

text \<open>
  A directory handle obtained from a lookup refers to a directory inside the tree, and a
  mutation through the handle is a mutation of the tree. The model rebuilds the tree
  along the components that led to the directory: \<open>replaceDir ps es' root\<close> puts the
  entries \<open>es'\<close> in the place of those of the directory that \<open>walk ps root\<close> reaches.
\<close>

fun replaceEntry :: "string \<Rightarrow> (mfsNode \<Rightarrow> mfsNode) \<Rightarrow> (string \<times> mfsNode) list \<Rightarrow> (string \<times> mfsNode) list" where
  "replaceEntry n f [] = []"
| "replaceEntry n f (e # es) =
     (if fst e = n then (fst e, f (snd e)) # es else e # replaceEntry n f es)"

lemma replaceEntry_cong [fundef_cong]:
  "es = es' \<Longrightarrow> n = n' \<Longrightarrow> (\<And>e. e \<in> set es' \<Longrightarrow> f (snd e) = g (snd e)) \<Longrightarrow>
   replaceEntry n f es = replaceEntry n' g es'"
  by (induction es' arbitrary: es) auto

fun replaceDir :: "string list \<Rightarrow> (string \<times> mfsNode) list \<Rightarrow> mfsNode \<Rightarrow> mfsNode" where
  "replaceDir ps es' (File c) = File c"
| "replaceDir [] es' (Directory es) = Directory es'"
| "replaceDir (p # ps) es' (Directory es) = Directory (replaceEntry p (replaceDir ps es') es)"

text \<open>
  A directory handle: the components that lead to the directory and its entries.
\<close>

record dirHandle =
  dirParts :: "string list"
  dirEntries :: "(string \<times> mfsNode) list"

text \<open>\<^verbatim>\<open>pdir.Unlink(name)\<close> on a handle, as a change of the tree under the root.\<close>

definition Unlink :: "mfsNode \<Rightarrow> dirHandle \<Rightarrow> string \<Rightarrow> cmdError + mfsNode" where
  "Unlink root pdir n =
     (case unlinkEntries (dirEntries pdir) n of
        Inl err \<Rightarrow> Inl err
      | Inr es' \<Rightarrow> Inr (replaceDir (dirParts pdir) es' root))"

section \<open>Removing paths (files rm)\<close>

text \<open>\<^verbatim>\<open>getParentDir\<close>: the lookup of the directory part, which must be a directory.\<close>

definition getParentDir :: "mfsNode \<Rightarrow> string \<Rightarrow> cmdError + dirHandle" where
  "getParentDir root dir =
     (case Lookup root dir of
        Inl err \<Rightarrow> Inl err
      | Inr (File c) \<Rightarrow> Inl ErrExpectedDirectory
      | Inr (Directory es) \<Rightarrow> Inr \<lparr>dirParts = pathParts dir, dirEntries = es\<rparr>)"

text \<open>The type switch \<^verbatim>\<open>case *mfs.Directory\<close>.\<close>

fun isDirectory :: "mfsNode \<Rightarrow> bool" where
  "isDirectory (Directory es) = True"
| "isDirectory (File c) = False"

text \<open>
  \<^verbatim>\<open>removePath\<close>. The result is the error (\<open>None\<close> for \<^verbatim>\<open>nil\<close>) and the tree the
  call leaves. \<^verbatim>\<open>pdir.Flush()\<close> writes to the block store, which is a collaborator:
  its outcome for the directory and the tree at hand is the parameter \<open>flush\<close>.
  Indexing the last byte of an empty path is a run-time panic in Go.
\<close>

definition removePath ::
  "(string list \<Rightarrow> mfsNode \<Rightarrow> cmdError option) \<Rightarrow> mfsNode \<Rightarrow> string \<Rightarrow> bool \<Rightarrow> bool \<Rightarrow>
     cmdError option \<times> mfsNode" where
  "removePath flush filesRoot path force dashr =
     (if path = ''/'' then (Some ErrCannotDeleteRoot, filesRoot)
      else if path = [] then (Some ErrIndexOutOfRange, filesRoot)
      else
        let path = (if last path = CHR ''/'' then butlast path else path);
            (dir, name) = Split path
        in (case getParentDir filesRoot dir of
              Inl err \<Rightarrow>
                if force \<and> err = ErrNotExist then (None, filesRoot) else (Some err, filesRoot)
            | Inr pdir \<Rightarrow>
                if force then
                  (case Unlink filesRoot pdir name of
                     Inl err \<Rightarrow>
                       if err = ErrNotExist then (None, filesRoot) else (Some err, filesRoot)
                   | Inr root' \<Rightarrow> (flush (dirParts pdir) root', root'))
                else
                  (case Child (dirEntries pdir) name of
                     Inl err \<Rightarrow> (Some err, filesRoot)
                   | Inr child \<Rightarrow>
                       if isDirectory child \<and> \<not> dashr then (Some ErrUseDashR, filesRoot)
                       else
                         (case Unlink filesRoot pdir name of
                            Inl err \<Rightarrow> (Some err, filesRoot)
                          | Inr root' \<Rightarrow> (flush (dirParts pdir) root', root')))))"

text \<open>A block store on which every flush of a directory succeeds.\<close>

definition flushSucceeds :: "string list \<Rightarrow> mfsNode \<Rightarrow> cmdError option" where
  "flushSucceeds ps t = None"

text \<open>
  The loop of \<^verbatim>\<open>filesRmCmd\<close> over its arguments, with the list \<^verbatim>\<open>errs\<close> and the tree
  as the state.
\<close>

fun rmLoop ::
  "(string list \<Rightarrow> mfsNode \<Rightarrow> cmdError option) \<Rightarrow> bool \<Rightarrow> bool \<Rightarrow> string list \<Rightarrow>
     cmdError list \<Rightarrow> mfsNode \<Rightarrow> cmdError list \<times> mfsNode" where
  "rmLoop flush force dashr [] errs root = (errs, root)"
| "rmLoop flush force dashr (arg # args) errs root =
     (case checkPath arg of
        Inl err \<Rightarrow> rmLoop flush force dashr args (errs @ [ErrNotAValidPath arg err]) root
      | Inr path \<Rightarrow>
          (case removePath flush root path force dashr of
             (Some err, root') \<Rightarrow> rmLoop flush force dashr args (errs @ [ErrWrap path err]) root'
           | (None, root') \<Rightarrow> rmLoop flush force dashr args errs root'))"

text \<open>
  \<^verbatim>\<open>filesRmCmd\<close>: what is emitted on the response (one message for each collected
  error, in order), the error returned and the tree left behind. The response emitter is
  taken to accept every message.
\<close>

record rmResult =
  rmEmitted :: "cmdError list"
  rmError :: "cmdError option"
  rmRoot :: mfsNode

definition filesRmCmd ::
  "(string list \<Rightarrow> mfsNode \<Rightarrow> cmdError option) \<Rightarrow> bool \<Rightarrow> bool \<Rightarrow> mfsNode \<Rightarrow> string list \<Rightarrow>
     rmResult" where
  "filesRmCmd flush force dashr root args =
     (let (errs, root') = rmLoop flush force dashr args [] root
      in if length errs > 0
         then \<lparr>rmEmitted = errs, rmError = Some ErrCantRemoveSomeFiles, rmRoot = root'\<rparr>
         else \<lparr>rmEmitted = [], rmError = None, rmRoot = root'\<rparr>)"

section \<open>Reading a file (files read)\<close>

text \<open>
  \<^verbatim>\<open>filesReadCmd\<close>. The options \<^verbatim>\<open>offset\<close> and \<^verbatim>\<open>count\<close> are 64-bit signed integers
  that may be absent; they are only compared, never added to, so they are integers here.
  An absent offset reads as zero. Opening a file for reading, its size and the seek to an
  offset within the content succeed in the model of the library; the reader that is
  emitted yields the content from the offset on, cut by \<^verbatim>\<open>io.LimitReader\<close> when a
  count is given.
\<close>

definition filesReadCmd ::
  "mfsNode \<Rightarrow> string \<Rightarrow> int option \<Rightarrow> int option \<Rightarrow> cmdError + bytes" where
  "filesReadCmd filesRoot arg offsetOpt countOpt =
     (case checkPath arg of
        Inl err \<Rightarrow> Inl err
      | Inr path \<Rightarrow>
          (case Lookup filesRoot path of
             Inl err \<Rightarrow> Inl (ErrWrap path err)
           | Inr (Directory es) \<Rightarrow> Inl (ErrWasNotAFile path)
           | Inr (File data) \<Rightarrow>
               let offset = (case offsetOpt of None \<Rightarrow> 0 | Some v \<Rightarrow> v) in
               if offset < 0 then Inl ErrNegativeOffset
               else
                 let filen = int (length data) in
                 if offset > filen then Inl (ErrOffsetPastEnd offset filen)
                 else
                   let r = drop (nat offset) data in
                   (case countOpt of
                      Some cnt \<Rightarrow>
                        if cnt < 0 then Inl ErrNegativeCount
                        else Inr (take (nat cnt) r)
                    | None \<Rightarrow> Inr r)))"

text \<open>
  The batch removal in the words of its description, for comparison with the loop: one
  path is attempted on a tree and contributes at most one error (the path is not valid,
  or its removal failed) and the tree it leaves; the attempts of a list of paths are made
  in order, each on the tree that the one before left, whatever the outcome before.
\<close>

definition rmAttempt ::
  "(string list \<Rightarrow> mfsNode \<Rightarrow> cmdError option) \<Rightarrow> bool \<Rightarrow> bool \<Rightarrow> mfsNode \<Rightarrow> string \<Rightarrow>
     cmdError option \<times> mfsNode" where
  "rmAttempt flush force dashr root arg =
     (case checkPath arg of
        Inl err \<Rightarrow> (Some (ErrNotAValidPath arg err), root)
      | Inr path \<Rightarrow>
          (case removePath flush root path force dashr of
             (Some err, root') \<Rightarrow> (Some (ErrWrap path err), root')
           | (None, root') \<Rightarrow> (None, root')))"


section \<open>DAG nodes and the local-only walk (files stat --with-local)\<close>

text \<open>
  An \<^verbatim>\<open>ipld.Node\<close> as the commands look at it: its Go type (\<^verbatim>\<open>*dag.RawNode\<close>,
  \<^verbatim>\<open>*dag.ProtoNode\<close> or another implementation), the codec of its CID, the bytes of its
  block (\<^verbatim>\<open>RawData\<close>), the payload of a structured node (\<^verbatim>\<open>Data\<close>) and its links.
  A merkle DAG has no cycles and the block store answers a hash in one way, so the walk
  from a node unfolds to a finite tree: each link carries what the offline DAG service
  answers for its CID, which is the child, the not-found error, or another failure. A
  block that two links reach occurs once under each of them.
\<close>

datatype nodeType = RawNode | ProtoNode | OtherNode

datatype cidCodec = Raw | DagProtobuf | OtherCodec nat

datatype ipldNode =
    IpldNode (nodeType: nodeType) (cidType: cidCodec) (RawData: bytes) (Data: bytes)
      (Links: "ipldLink list")
and ipldLink =
    IpldLink (linkName: string) (linkGet: getResult)
and getResult =
    Found ipldNode
  | NotFound
  | GetFailed string

text \<open>
  \<^verbatim>\<open>walkBlock\<close> and its loop over the links, with \<^verbatim>\<open>local\<close> and \<^verbatim>\<open>sizeLocal\<close> as the
  state of the loop. \<^verbatim>\<open>sizeLocal\<close> is a \<^verbatim>\<open>uint64\<close>: the additions wrap.
\<close>

fun walkBlock :: "ipldNode \<Rightarrow> bool \<times> 64 word \<times> cmdError option"
  and walkLinks :: "ipldLink list \<Rightarrow> bool \<Rightarrow> 64 word \<Rightarrow> bool \<times> 64 word \<times> cmdError option" where
  "walkBlock (IpldNode ty codec raw payload links) =
     walkLinks links True (of_nat (length raw))"
| "walkLinks [] local sizeLocal = (local, sizeLocal, None)"
| "walkLinks (IpldLink n NotFound # links) local sizeLocal =
     walkLinks links False sizeLocal"
| "walkLinks (IpldLink n (GetFailed e) # links) local sizeLocal =
     (local, sizeLocal, Some (ErrStore e))"
| "walkLinks (IpldLink n (Found child) # links) local sizeLocal =
     (case walkBlock child of
        (childLocal, childLocalSize, Some err) \<Rightarrow> (local, sizeLocal, Some err)
      | (childLocal, childLocalSize, None) \<Rightarrow>
          walkLinks links (local \<and> childLocal) (sizeLocal + childLocalSize))"

text \<open>
  The quantities the walk is to report, in the words of its description: the bytes of
  the root block plus, for each link whose child is present, the bytes computed for the
  child's subtree; whether some lookup in the walk missed; and whether some lookup failed
  with an error other than not-found.
\<close>

fun localBytes :: "ipldNode \<Rightarrow> 64 word"
  and linksBytes :: "ipldLink list \<Rightarrow> 64 word" where
  "localBytes (IpldNode ty codec raw payload links) = of_nat (length raw) + linksBytes links"
| "linksBytes [] = 0"
| "linksBytes (IpldLink n (Found child) # links) = localBytes child + linksBytes links"
| "linksBytes (IpldLink n NotFound # links) = linksBytes links"
| "linksBytes (IpldLink n (GetFailed e) # links) = linksBytes links"

fun missed :: "ipldNode \<Rightarrow> bool"
  and linksMissed :: "ipldLink list \<Rightarrow> bool" where
  "missed (IpldNode ty codec raw payload links) = linksMissed links"
| "linksMissed [] = False"
| "linksMissed (IpldLink n (Found child) # links) = (missed child \<or> linksMissed links)"
| "linksMissed (IpldLink n NotFound # links) = True"
| "linksMissed (IpldLink n (GetFailed e) # links) = linksMissed links"

fun faulty :: "ipldNode \<Rightarrow> bool"
  and linksFaulty :: "ipldLink list \<Rightarrow> bool" where
  "faulty (IpldNode ty codec raw payload links) = linksFaulty links"
| "linksFaulty [] = False"
| "linksFaulty (IpldLink n (Found child) # links) = (faulty child \<or> linksFaulty links)"
| "linksFaulty (IpldLink n NotFound # links) = linksFaulty links"
| "linksFaulty (IpldLink n (GetFailed e) # links) = True"

section \<open>Copying a reference into the tree (files cp)\<close>

text \<open>
  The collaborators of \<^verbatim>\<open>filesCpCmd\<close> that are not among the sources are parameters:
  the resolution of an \<^verbatim>\<open>/ipfs/\<close> path to a node (\<^verbatim>\<open>path.NewPath\<close> and
  \<^verbatim>\<open>api.ResolveNode\<close>), the DAG node of a node of the tree (\<^verbatim>\<open>fsn.GetNode\<close>), the
  decoder of a structured node's payload (\<^verbatim>\<open>ft.FSNodeFromBytes\<close>, of which only the
  error is used), and the operations of the library that create directories, attach a
  node and flush a path (\<^verbatim>\<open>mfs.Mkdir\<close>, \<^verbatim>\<open>mfs.PutNode\<close>, \<^verbatim>\<open>mfs.FlushPath\<close>). The
  type \<open>'p\<close> is that of a CID builder.
\<close>

record 'p cpEnv =
  ResolveNode :: "string \<Rightarrow> cmdError + ipldNode"
  GetNode :: "mfsNode \<Rightarrow> cmdError + ipldNode"
  FSNodeFromBytes :: "bytes \<Rightarrow> cmdError option"
  Mkdir :: "mfsNode \<Rightarrow> string \<Rightarrow> 'p option \<Rightarrow> cmdError + mfsNode"
  PutNode :: "mfsNode \<Rightarrow> string \<Rightarrow> ipldNode \<Rightarrow> cmdError + mfsNode"
  FlushPath :: "mfsNode \<Rightarrow> string \<Rightarrow> cmdError option"

text \<open>\<^verbatim>\<open>strings.HasPrefix(p, "/ipfs/")\<close>.\<close>

definition hasIpfsPrefix :: "string \<Rightarrow> bool" where
  "hasIpfsPrefix p = (take 6 p = ''/ipfs/'')"

definition getNodeFromPath :: "'p cpEnv \<Rightarrow> mfsNode \<Rightarrow> string \<Rightarrow> cmdError + ipldNode" where
  "getNodeFromPath env filesRoot p =
     (if hasIpfsPrefix p then ResolveNode env p
      else (case Lookup filesRoot p of
              Inl err \<Rightarrow> Inl err
            | Inr fsn \<Rightarrow> GetNode env fsn))"

definition unlinkNodeIfExists :: "mfsNode \<Rightarrow> string \<Rightarrow> cmdError option \<times> mfsNode" where
  "unlinkNodeIfExists filesRoot path =
     (let (dir, name) = Split path in
      case Lookup filesRoot dir of
        Inl err \<Rightarrow> if err = ErrNotExist then (None, filesRoot) else (Some err, filesRoot)
      | Inr (File c) \<Rightarrow> (Some (ErrNotADirectoryAt dir), filesRoot)
      | Inr (Directory es) \<Rightarrow>
          (case Child es name of
             Inl err \<Rightarrow> (None, filesRoot)
           | Inr (Directory ces) \<Rightarrow> (Some (ErrNotAFileAt path), filesRoot)
           | Inr (File c) \<Rightarrow>
               (case Unlink filesRoot \<lparr>dirParts = pathParts dir, dirEntries = es\<rparr> name of
                  Inl err \<Rightarrow> (Some err, filesRoot)
                | Inr root' \<Rightarrow> (None, root'))))"

definition ensureContainingDirectoryExists ::
  "'p cpEnv \<Rightarrow> mfsNode \<Rightarrow> string \<Rightarrow> 'p option \<Rightarrow> cmdError option \<times> mfsNode" where
  "ensureContainingDirectoryExists env r path builder =
     (let dirtomake = Dir path in
      if dirtomake = ''/'' then (None, r)
      else (case Mkdir env r dirtomake builder of
              Inl err \<Rightarrow> (Some err, r)
            | Inr r' \<Rightarrow> (None, r')))"

text \<open>
  The sanity check of \<^verbatim>\<open>filesCpCmd\<close> on the node it is about to attach: the switch on
  the codec of the node's CID. \<open>None\<close> lets the copy go on.
\<close>

definition cpSanityCheck :: "'p cpEnv \<Rightarrow> ipldNode \<Rightarrow> cmdError option" where
  "cpSanityCheck env node =
     (case cidType node of
        Raw \<Rightarrow> if nodeType node \<noteq> RawNode then Some ErrFilesCpInvalidUnixFS else None
      | DagProtobuf \<Rightarrow>
          if nodeType node \<noteq> ProtoNode then Some ErrFilesCpInvalidUnixFS
          else (case FSNodeFromBytes env (Data node) of
                  Some err \<Rightarrow> Some (ErrFilesCpInvalidUnixFSWrap err)
                | None \<Rightarrow> None)
      | OtherCodec c \<Rightarrow> Some ErrFilesCpInvalidUnixFS)"

text \<open>The steps of \<^verbatim>\<open>filesCpCmd\<close> after the sanity check.\<close>

definition cpAttach ::
  "'p cpEnv \<Rightarrow> mfsNode \<Rightarrow> string \<Rightarrow> ipldNode \<Rightarrow> 'p option \<Rightarrow> bool \<Rightarrow> bool \<Rightarrow> bool \<Rightarrow>
     cmdError option \<times> mfsNode" where
  "cpAttach env filesRoot dst node prefix mkParents force flush =
     (case (if mkParents then ensureContainingDirectoryExists env filesRoot dst prefix
            else (None, filesRoot)) of
        (Some err, r1) \<Rightarrow> (Some err, r1)
      | (None, r1) \<Rightarrow>
          (case (if force then unlinkNodeIfExists r1 dst else (None, r1)) of
             (Some err, r2) \<Rightarrow> (Some (ErrCpCannotUnlink err), r2)
           | (None, r2) \<Rightarrow>
               (case PutNode env r2 dst node of
                  Inl err \<Rightarrow> (Some (ErrCpCannotPut dst err), r2)
                | Inr r3 \<Rightarrow>
                    if flush then
                      (case FlushPath env r3 dst of
                         Some err \<Rightarrow> (Some (ErrCpCannotFlush dst err), r3)
                       | None \<Rightarrow>
                           (case FlushPath env r3 (Dir dst) of
                              Some err \<Rightarrow> (Some (ErrCpCannotFlushParent dst err), r3)
                            | None \<Rightarrow> (None, r3)))
                    else (None, r3))))"

text \<open>
  \<^verbatim>\<open>filesCpCmd\<close>: the error returned and the tree left. \<open>prefixRes\<close> is the result of
  \<^verbatim>\<open>getPrefixNew(req)\<close>, read from the options of the request.
\<close>

definition filesCpCmd ::
  "'p cpEnv \<Rightarrow> mfsNode \<Rightarrow> cmdError + 'p option \<Rightarrow> string \<Rightarrow> string \<Rightarrow> bool \<Rightarrow> bool \<Rightarrow> bool \<Rightarrow>
     cmdError option \<times> mfsNode" where
  "filesCpCmd env filesRoot prefixRes srcArg dstArg mkParents force flush =
     (case prefixRes of
        Inl err \<Rightarrow> (Some err, filesRoot)
      | Inr prefix \<Rightarrow>
          (case checkPath srcArg of
             Inl err \<Rightarrow> (Some err, filesRoot)
           | Inr src0 \<Rightarrow>
               let src = TrimRightSlash src0 in
               (case checkPath dstArg of
                  Inl err \<Rightarrow> (Some err, filesRoot)
                | Inr dst0 \<Rightarrow>
                    let dst = (if last dst0 = CHR ''/'' then dst0 @ Base src else dst0) in
                    (case getNodeFromPath env filesRoot src of
                       Inl err \<Rightarrow> (Some (ErrCpCannotGetNode src err), filesRoot)
                     | Inr node \<Rightarrow>
                         (case cpSanityCheck env node of
                            Some err \<Rightarrow> (Some err, filesRoot)
                          | None \<Rightarrow>
                              cpAttach env filesRoot dst node prefix mkParents force flush)))))"

text \<open>
  The content encodings that the description of the copy recognises: a raw leaf block,
  or a structured (dag-pb) node whose payload decodes as a file system node.
\<close>

definition recognizedContent :: "'p cpEnv \<Rightarrow> ipldNode \<Rightarrow> bool" where
  "recognizedContent env node \<longleftrightarrow>
     cidType node = Raw \<and> nodeType node = RawNode
     \<or> cidType node = DagProtobuf \<and> nodeType node = ProtoNode
         \<and> FSNodeFromBytes env (Data node) = None"

text \<open>The invalid-content errors: \<^verbatim>\<open>errFilesCpInvalidUnixFS\<close>, bare or wrapping a cause.\<close>

fun invalidContentError :: "cmdError \<Rightarrow> bool" where
  "invalidContentError ErrFilesCpInvalidUnixFS = True"
| "invalidContentError (ErrFilesCpInvalidUnixFSWrap cause) = True"
| "invalidContentError err = False"

text \<open>
  An environment to run the copy in: \<^verbatim>\<open>/ipfs/raw\<close> resolves to a raw leaf block,
  \<^verbatim>\<open>/ipfs/cbor\<close> to a node of another codec (dag-cbor, code 113) and \<^verbatim>\<open>/ipfs/pb\<close> to a
  structured node whose payload does not decode; attaching a node appends an entry to the
  root directory.
\<close>

definition exampleEnv :: "unit cpEnv" where
  "exampleEnv =
     \<lparr>ResolveNode = (\<lambda>p.
         if p = ''/ipfs/raw'' then Inr (IpldNode RawNode Raw ''data'' [] [])
         else if p = ''/ipfs/cbor'' then Inr (IpldNode OtherNode (OtherCodec 113) ''data'' [] [])
         else if p = ''/ipfs/pb'' then Inr (IpldNode ProtoNode DagProtobuf ''data'' ''junk'' [])
         else Inl ErrNotExist),
      GetNode = (\<lambda>fsn. Inl (ErrStore ''unavailable'')),
      FSNodeFromBytes = (\<lambda>payload. if payload = ''junk'' then Some (ErrStore ''unmarshal'') else None),
      Mkdir = (\<lambda>r p b. Inr r),
      PutNode = (\<lambda>r p nd. case r of
                   Directory es \<Rightarrow> Inr (Directory (es @ [(Base p, File (RawData nd))]))
                 | File c \<Rightarrow> Inl ErrNotADirectory),
      FlushPath = (\<lambda>r p. None)\<rparr>"

section \<open>Listing a directory (files ls)\<close>

text \<open>
  Modelled from the spec: \<^verbatim>\<open>mfs.NodeListing\<close>, the node types \<^verbatim>\<open>mfs.TFile\<close> and
  \<^verbatim>\<open>mfs.TDir\<close>, and the listing operations \<^verbatim>\<open>Directory.ListNames\<close> and
  \<^verbatim>\<open>Directory.List\<close> belong to the MFS library, which is not among the sources. The
  spec has a listing as a sequence of entries with a name, a type and optionally a size
  and a hash, in the directory's natural order unless a sort is imposed. The hash of a
  node is a parameter (\<open>hashOf\<close>).
\<close>

record NodeListing =
  Name :: string
  Type :: int
  Size :: int
  Hash :: string

definition TFile :: int where
  "TFile = 0"

definition TDir :: int where
  "TDir = 1"

definition ListNames :: "(string \<times> mfsNode) list \<Rightarrow> string list" where
  "ListNames es = map fst es"

fun nodeListing :: "(mfsNode \<Rightarrow> string) \<Rightarrow> string \<times> mfsNode \<Rightarrow> NodeListing" where
  "nodeListing hashOf (n, File c) =
     \<lparr>Name = n, Type = TFile, Size = int (length c), Hash = hashOf (File c)\<rparr>"
| "nodeListing hashOf (n, Directory es) =
     \<lparr>Name = n, Type = TDir, Size = 0, Hash = hashOf (Directory es)\<rparr>"

definition List_entries :: "(mfsNode \<Rightarrow> string) \<Rightarrow> (string \<times> mfsNode) list \<Rightarrow> NodeListing list" where
  "List_entries hashOf es = map (nodeListing hashOf) es"

text \<open>
  Modelled from the spec: \<^verbatim>\<open>strings.Compare\<close> and \<^verbatim>\<open>slices.SortFunc\<close> belong to Go's
  standard library. The comparison is the lexicographic one of the bytes of the two
  strings, which is the order of \<^typ>\<open>string\<close> here. The sort puts the slice in ascending
  order by the comparison function; the library does not promise to keep the order of
  equal elements, and the insertion sort below is one sort that meets its description.
\<close>

definition strings_Compare :: "string \<Rightarrow> string \<Rightarrow> int" where
  "strings_Compare a b = (if a = b then 0 else if a < b then - 1 else 1)"

fun insertSorted :: "('a \<Rightarrow> 'a \<Rightarrow> int) \<Rightarrow> 'a \<Rightarrow> 'a list \<Rightarrow> 'a list" where
  "insertSorted cmp x [] = [x]"
| "insertSorted cmp x (y # ys) =
     (if cmp x y \<le> 0 then x # y # ys else y # insertSorted cmp x ys)"

definition slices_SortFunc :: "('a \<Rightarrow> 'a \<Rightarrow> int) \<Rightarrow> 'a list \<Rightarrow> 'a list" where
  "slices_SortFunc cmp xs = foldr (insertSorted cmp) xs []"

text \<open>The verb \<^verbatim>\<open>%d\<close> of a 64-bit integer: its decimal digits, with a sign when negative.\<close>

definition digitChar :: "nat \<Rightarrow> char" where
  "digitChar d = char_of (48 + d)"

function showNat :: "nat \<Rightarrow> string" where
  "showNat n = (if n < 10 then [digitChar n] else showNat (n div 10) @ [digitChar (n mod 10)])"
  by pat_completeness auto
termination
  by (relation "measure (\<lambda>n. n)") auto

declare showNat.simps [simp del]

definition showInt :: "int \<Rightarrow> string" where
  "showInt i = (if i < 0 then ''-'' @ showNat (nat (- i)) else showNat (nat i))"

text \<open>
  The \<^verbatim>\<open>Run\<close> function of \<^verbatim>\<open>filesLsCmd\<close>: the entries it emits for the path, which
  defaults to the root. Without the long format only the names are filled in.
\<close>

definition filesLsRun ::
  "(mfsNode \<Rightarrow> string) \<Rightarrow> mfsNode \<Rightarrow> string list \<Rightarrow> bool \<Rightarrow> cmdError + NodeListing list" where
  "filesLsRun hashOf filesRoot args long =
     (let arg = (if length args = 0 then ''/'' else hd args) in
      case checkPath arg of
        Inl err \<Rightarrow> Inl err
      | Inr path \<Rightarrow>
          (case Lookup filesRoot path of
             Inl err \<Rightarrow> Inl err
           | Inr (Directory es) \<Rightarrow>
               if \<not> long
               then Inr (map (\<lambda>n. \<lparr>Name = n, Type = 0, Size = 0, Hash = []\<rparr>) (ListNames es))
               else Inr (List_entries hashOf es)
           | Inr (File c) \<Rightarrow>
               let name = snd (Split path) in
               if long
               then Inr [\<lparr>Name = name, Type = TFile, Size = int (length c), Hash = hashOf (File c)\<rparr>]
               else Inr [\<lparr>Name = name, Type = 0, Size = 0, Hash = []\<rparr>]))"

text \<open>One line of the text encoder, for one entry.\<close>

definition lsLine :: "bool \<Rightarrow> NodeListing \<Rightarrow> string" where
  "lsLine long o' =
     (if long then
        (if Type o' = TDir then Name o' @ ''/'' else Name o')
          @ [CHR 0x09] @ Hash o' @ [CHR 0x09] @ showInt (Size o') @ [CHR 0x0A]
      else Name o' @ [CHR 0x0A])"

text \<open>
  The text encoder of \<^verbatim>\<open>filesLsCmd\<close>: the lines it writes for the emitted entries.
  \<open>noSort\<close> is the option \<^verbatim>\<open>-U\<close>.
\<close>

definition filesLsText :: "bool \<Rightarrow> bool \<Rightarrow> NodeListing list \<Rightarrow> string list" where
  "filesLsText noSort long outEntries =
     (let sorted = (if \<not> noSort
                    then slices_SortFunc (\<lambda>a b. strings_Compare (Name a) (Name b)) outEntries
                    else outEntries)
      in map (lsLine long) sorted)"

section \<open>Flushing a path (files flush)\<close>

text \<open>
  Modelled from the spec: \<^verbatim>\<open>mfs.FlushPath\<close> belongs to the MFS library. The spec has
  it resolve the target node of the path and return the node's new hash; the tree of the
  model holds no unflushed state, so the flush is the resolution of the path.
\<close>

definition mfsFlushPath :: "mfsNode \<Rightarrow> string \<Rightarrow> cmdError + mfsNode" where
  "mfsFlushPath root path = Lookup root path"

text \<open>
  \<^verbatim>\<open>filesFlushCmd\<close>: the path defaults to the root, and the argument goes to the library
  as it is. The result is the encoded CID of the flushed node (\<open>hashOf\<close>).
\<close>

definition filesFlushCmd ::
  "(mfsNode \<Rightarrow> string) \<Rightarrow> mfsNode \<Rightarrow> string list \<Rightarrow> cmdError + string" where
  "filesFlushCmd hashOf filesRoot args =
     (let path = (if length args > 0 then hd args else ''/'') in
      case mfsFlushPath filesRoot path of
        Inl err \<Rightarrow> Inl err
      | Inr n \<Rightarrow> Inr (hashOf n))"

section \<open>The mirror admits equal sibling names\<close>


lemma splitOn_nonempty [simp]: "splitOn c s \<noteq> []"
  by (induction s) (auto split: list.splits)

lemma splitOn_no_sep: "w \<in> set (splitOn c s) \<Longrightarrow> c \<notin> set w"
  by (induction s arbitrary: w) (auto split: list.splits if_splits)

lemma splitOn_append_sep:
  "c \<notin> set p \<Longrightarrow> splitOn c (p @ c # s) = p # splitOn c s"
  by (induction p) (auto split: list.splits)

lemma splitOn_no_sep_id: "c \<notin> set p \<Longrightarrow> splitOn c p = [p]"
  by (induction p) (auto split: list.splits)

lemma splitOn_joinWith:
  "ps \<noteq> [] \<Longrightarrow> \<forall>p\<in>set ps. c \<notin> set p \<Longrightarrow> splitOn c (joinWith [c] ps) = ps"
  by (induction "[c]" ps rule: joinWith.induct) (auto simp: splitOn_append_sep splitOn_no_sep_id)

lemma pathParts_props: "p \<in> set (pathParts s) \<Longrightarrow> p \<noteq> [] \<and> CHR ''/'' \<notin> set p"
  by (auto simp: pathParts_def splitOn_no_sep)

lemma pathParts_join:
  assumes "\<forall>p\<in>set ps. p \<noteq> [] \<and> CHR ''/'' \<notin> set p"
  shows "pathParts (''/'' @ joinWith ''/'' ps) = ps"
proof (cases "ps = []")
  case True
  then show ?thesis by (simp add: pathParts_def)
next
  case False
  with assms have "splitOn CHR ''/'' (joinWith ''/'' ps) = ps"
    by (simp add: splitOn_joinWith)
  with assms show ?thesis
    by (simp add: pathParts_def filter_id_conv)
qed

lemma find_replaceFirst:
  "find P cs = Some c \<Longrightarrow> P (f c) \<Longrightarrow> find P (replaceFirst P f cs) = Some (f c)"
  by (induction cs) (auto split: if_splits)

lemma name_pushAt [simp]: "name (pushAt ps new nd) = name nd"
  by (cases "(ps, new, nd)" rule: pushAt.cases) auto

lemma findNodeParts_pushAt:
  "findNodeParts ps root = Some (VfsFolder n cs) \<Longrightarrow>
   findNodeParts ps (pushAt ps new root) = Some (VfsFolder n (cs @ [new]))"
proof (induction ps root rule: findNodeParts.induct)
  case (1 current)
  then show ?case by simp
next
  case (2 part parts n c t)
  then show ?case by simp
next
  case (3 part parts m cs')
  from "3.prems" obtain nxt
    where f: "find (\<lambda>child. name child = part) cs' = Some nxt"
      and r: "findNodeParts parts nxt = Some (VfsFolder n cs)"
    by (auto split: option.splits)
  from f have "name nxt = part"
    by (auto simp: find_Some_iff)
  with f have "find (\<lambda>child. name child = part)
                 (replaceFirst (\<lambda>child. name child = part) (pushAt parts new) cs') =
               Some (pushAt parts new nxt)"
    by (intro find_replaceFirst) simp_all
  with "3.IH"[OF f r] show ?case by simp
qed

lemma pathParts_folderPathOf: "pathParts (folderPathOf path) = butlast (pathParts path)"
  unfolding folderPathOf_def
  by (rule pathParts_join) (auto dest: in_set_butlastD pathParts_props)

text \<open>One call: the folder that the path names gains the new entry at the end.\<close>

lemma addFile_appends:
  assumes "pathParts path \<noteq> []"
    and "findNode (folderPathOf path) root = Some (VfsFolder n cs)"
  shows "findNode (folderPathOf path) (addFile root path c ts) =
           Some (VfsFolder n (cs @ [VfsFile (last (pathParts path)) c ts]))"
  using assms
  unfolding addFile_def Let_def folderPathOf_def[symmetric]
  by (simp add: findNode_def findNodeParts_pushAt)

text \<open>
  Claim C10. \<^verbatim>\<open>addFile\<close> appends the new file entry to the destination folder's
  children without looking for a child of the same name. Whenever the path names a file
  (it has at least one part) and its folder resolves to a folder with children \<open>cs\<close>,
  two calls with the same path leave that folder with the children \<open>cs\<close> followed by two
  file entries of the same name: the names of the folder's children are not distinct.
\<close>

theorem addFile_twice_same_name:
  assumes "pathParts path \<noteq> []"
    and "findNode (folderPathOf path) root = Some (VfsFolder n cs)"
  shows "findNode (folderPathOf path) (addFile (addFile root path c1 t1) path c2 t2) =
           Some (VfsFolder n (cs @ [VfsFile (last (pathParts path)) c1 t1,
                                    VfsFile (last (pathParts path)) c2 t2]))
         \<and> \<not> distinct (map name (cs @ [VfsFile (last (pathParts path)) c1 t1,
                                    VfsFile (last (pathParts path)) c2 t2]))"
proof -
  from addFile_appends[OF assms, of c1 t1]
  have "findNode (folderPathOf path) (addFile (addFile root path c1 t1) path c2 t2) =
          Some (VfsFolder n ((cs @ [VfsFile (last (pathParts path)) c1 t1]) @
                 [VfsFile (last (pathParts path)) c2 t2]))"
    by (rule addFile_appends[OF assms(1)])
  then show ?thesis by simp
qed

text \<open>The instance on the empty file system: \<^verbatim>\<open>/a.txt\<close> added twice.\<close>

theorem addFile_twice_same_name_witness:
  "findNode ''/'' (addFile (addFile createVirtualFs ''/a.txt'' ''c1'' ''t1'') ''/a.txt'' ''c2'' ''t2'') =
     Some (VfsFolder ''/'' [VfsFile ''a.txt'' ''c1'' ''t1'', VfsFile ''a.txt'' ''c2'' ''t2''])
   \<and> \<not> distinct (map name [VfsFile ''a.txt'' ''c1'' ''t1'', VfsFile ''a.txt'' ''c2'' ''t2''])"
proof -
  have p: "pathParts ''/a.txt'' = [''a.txt'']"
    by (simp add: pathParts_def)
  have f: "folderPathOf ''/a.txt'' = ''/''"
    by (simp add: folderPathOf_def p)
  have h1: "pathParts ''/a.txt'' \<noteq> []"
    by (simp add: p)
  have h2: "findNode (folderPathOf ''/a.txt'') createVirtualFs = Some (VfsFolder ''/'' [])"
    by (simp add: f findNode_def pathParts_def createVirtualFs_def)
  show ?thesis
    using addFile_twice_same_name[OF h1 h2, of "''c1''" "''t1''" "''c2''" "''t2''"]
    by (simp add: f p)
qed

section \<open>Paths, their components and the walk\<close>

lemma splitOn_sep_append: "splitOn c (xs @ c # ys) = splitOn c xs @ splitOn c ys"
  by (induction xs) (auto split: list.splits)

lemma pathParts_nil [simp]: "pathParts [] = []"
  by (simp add: pathParts_def)

lemma pathParts_slash_append:
  "pathParts (xs @ CHR ''/'' # ys) = pathParts xs @ pathParts ys"
  by (simp add: pathParts_def splitOn_sep_append)

lemma pathParts_snoc_slash: "pathParts (xs @ ''/'') = pathParts xs"
  using pathParts_slash_append[of xs "[]"] by simp

lemma pathParts_butlast:
  "path \<noteq> [] \<Longrightarrow> last path = CHR ''/'' \<Longrightarrow> pathParts (butlast path) = pathParts path"
  using pathParts_snoc_slash[of "butlast path"] by (metis append_butlast_last_id)

lemma pathParts_no_slash:
  "CHR ''/'' \<notin> set n \<Longrightarrow> pathParts n = (if n = [] then [] else [n])"
  by (simp add: pathParts_def splitOn_no_sep_id)

lemma lastIndexSlash_None: "lastIndexSlash p = None \<longleftrightarrow> CHR ''/'' \<notin> set p"
  by (induction p) (auto split: option.splits)

lemma lastIndexSlash_Some:
  "lastIndexSlash p = Some i \<Longrightarrow>
     i < length p \<and> p ! i = CHR ''/'' \<and> CHR ''/'' \<notin> set (drop (Suc i) p)"
proof (induction p arbitrary: i)
  case Nil
  then show ?case by simp
next
  case (Cons c cs)
  then show ?case
    by (auto split: option.splits if_splits simp: lastIndexSlash_None)
qed

lemma Split_parts:
  assumes "Split p = (dir, n)"
  shows "pathParts p = pathParts dir @ (if n = [] then [] else [n])"
proof (cases "lastIndexSlash p")
  case None
  with assms have "dir = []" "n = p" by (auto simp: Split_def)
  moreover from None have "CHR ''/'' \<notin> set p" by (simp add: lastIndexSlash_None)
  ultimately show ?thesis by (simp add: pathParts_no_slash)
next
  case (Some i)
  with assms have d: "dir = take (Suc i) p" and n: "n = drop (Suc i) p"
    by (auto simp: Split_def)
  from lastIndexSlash_Some[OF Some]
  have i: "i < length p" and s: "p ! i = CHR ''/''" and ns: "CHR ''/'' \<notin> set n"
    by (auto simp: n)
  from i s have dir: "dir = take i p @ ''/''"
    by (simp add: d take_Suc_conv_app_nth)
  have "p = take i p @ CHR ''/'' # n"
    using i s n by (metis Cons_nth_drop_Suc append_take_drop_id)
  then have "pathParts p = pathParts (take i p) @ pathParts n"
    by (metis pathParts_slash_append)
  with ns show ?thesis
    by (simp add: dir pathParts_snoc_slash pathParts_no_slash)
qed

lemma walk_append:
  "walk (ps @ qs) nd = (case walk ps nd of Inl e \<Rightarrow> Inl e | Inr nd' \<Rightarrow> walk qs nd')"
  by (induction ps nd rule: walk.induct) (auto split: option.splits)

lemma walk_snoc_NotExist:
  "walk (ps @ [n]) root = Inl ErrNotExist \<longleftrightarrow>
     walk ps root = Inl ErrNotExist \<or> (\<exists>es. walk ps root = Inr (Directory es) \<and> map_of es n = None)"
  by (cases "walk ps root"; cases "projr (walk ps root)")
     (auto simp: walk_append split: option.splits sum.splits mfsNode.splits)

section \<open>Removal of a path that does not exist\<close>

text \<open>
  The two ways in which \<^verbatim>\<open>removePath\<close> meets a missing path, for a path that is not the
  root: the lookup of the directory part fails, or the directory holds no entry of the
  final name.
\<close>

lemma removePath_parent_fails:
  assumes "path \<noteq> ''/''" and "path \<noteq> []"
    and "Split (if last path = CHR ''/'' then butlast path else path) = (dir, n)"
    and "getParentDir filesRoot dir = Inl err"
  shows "removePath flush filesRoot path force dashr =
           (if force \<and> err = ErrNotExist then None else Some err, filesRoot)"
  using assms by (simp add: removePath_def)

lemma removePath_entry_missing:
  assumes "path \<noteq> ''/''" and "path \<noteq> []"
    and "Split (if last path = CHR ''/'' then butlast path else path) = (dir, n)"
    and "getParentDir filesRoot dir = Inr pdir"
    and "map_of (dirEntries pdir) n = None"
  shows "removePath flush filesRoot path force dashr =
           (if force then None else Some ErrNotExist, filesRoot)"
  using assms by (simp add: removePath_def Unlink_def unlinkEntries_def Child_def)

lemma removePath_missing_aux:
  assumes ne: "path \<noteq> []"
    and miss: "Lookup filesRoot path = Inl ErrNotExist"
  shows "removePath flush filesRoot path force dashr =
           (if force then None else Some ErrNotExist, filesRoot)"
proof -
  define path' where "path' = (if last path = CHR ''/'' then butlast path else path)"
  obtain dir n where sp: "Split path' = (dir, n)"
    by (cases "Split path'")
  have "pathParts path' = pathParts path"
    using ne by (simp add: path'_def pathParts_butlast)
  with Split_parts[OF sp]
  have parts: "pathParts path = pathParts dir @ (if n = [] then [] else [n])"
    by simp
  from miss have notroot: "path \<noteq> ''/''"
    by (auto simp: Lookup_def pathParts_def)
  have w: "walk (pathParts dir) filesRoot = Inl ErrNotExist \<or>
           (\<exists>es. walk (pathParts dir) filesRoot = Inr (Directory es) \<and> map_of es n = None)"
  proof (cases "n = []")
    case True
    with miss parts show ?thesis by (simp add: Lookup_def)
  next
    case False
    with miss parts show ?thesis by (simp add: Lookup_def walk_snoc_NotExist)
  qed
  from w show ?thesis
  proof
    assume "walk (pathParts dir) filesRoot = Inl ErrNotExist"
    then have "getParentDir filesRoot dir = Inl ErrNotExist"
      by (simp add: getParentDir_def Lookup_def)
    from removePath_parent_fails[OF notroot ne sp[unfolded path'_def] this]
    show ?thesis by simp
  next
    assume "\<exists>es. walk (pathParts dir) filesRoot = Inr (Directory es) \<and> map_of es n = None"
    then obtain es where es: "walk (pathParts dir) filesRoot = Inr (Directory es)"
      and none: "map_of es n = None" by blast
    from es have "getParentDir filesRoot dir = Inr \<lparr>dirParts = pathParts dir, dirEntries = es\<rparr>"
      by (simp add: getParentDir_def Lookup_def)
    from removePath_entry_missing[OF notroot ne sp[unfolded path'_def] this] none
    show ?thesis by simp
  qed
qed

lemma checkPath_root: "checkPath ''/'' = Inr ''/''"
  by (simp add: checkPath_def Clean_def)

text \<open>
  Claim C6, as stated for every path that does not exist, does not hold of
  \<^verbatim>\<open>removePath\<close>: in the tree that holds only the file \<^verbatim>\<open>/f\<close>, the path \<^verbatim>\<open>/f/x\<close>
  does not exist, since its lookup fails below the file. The directory part \<^verbatim>\<open>/f/\<close>
  resolves to the file, \<^verbatim>\<open>getParentDir\<close> fails with its expected-directory error, which
  is not \<^verbatim>\<open>os.ErrNotExist\<close>, and \<^verbatim>\<open>removePath\<close> returns that error with force as well
  as without: the forced removal does not succeed, and the removal without force does not
  fail with the not-found error.
\<close>

theorem removePath_below_file_counterexample:
  "Lookup (Directory [(''f'', File ''ab'')]) ''/f/x'' = Inl ErrNotADirectory
   \<and> removePath flushSucceeds (Directory [(''f'', File ''ab'')]) ''/f/x'' True False =
       (Some ErrExpectedDirectory, Directory [(''f'', File ''ab'')])
   \<and> removePath flushSucceeds (Directory [(''f'', File ''ab'')]) ''/f/x'' False False =
       (Some ErrExpectedDirectory, Directory [(''f'', File ''ab'')])"
  by (simp add: removePath_def Split_def getParentDir_def Lookup_def pathParts_def)

text \<open>
  Claim C6, amended. For every path whose lookup fails with the not-found error, which is
  the case when the parent directory is missing and when the parent directory holds no
  entry of the final name, \<^verbatim>\<open>removePath\<close> without force fails with the not-found error,
  and with force it returns no error; in both cases the tree is the one it was given.
\<close>

theorem removePath_missing:
  assumes "path \<noteq> []"
    and "Lookup filesRoot path = Inl ErrNotExist"
  shows "removePath flush filesRoot path False dashr = (Some ErrNotExist, filesRoot)
       \<and> removePath flush filesRoot path True dashr = (None, filesRoot)"
  using removePath_missing_aux[OF assms] by simp

text \<open>
  Two instances on a tree with \<^verbatim>\<open>/a/b\<close>: the final entry is missing (\<^verbatim>\<open>/a/x\<close>), and
  the parent directory is missing (\<^verbatim>\<open>/z/x\<close>).
\<close>

theorem removePath_missing_witness:
  "(removePath (\<lambda>ps t. None) (Directory [(''a'', Directory [(''b'', File ''hello'')])]) ''/a/x'' False False
      = (Some ErrNotExist, Directory [(''a'', Directory [(''b'', File ''hello'')])])
    \<and> removePath (\<lambda>ps t. None) (Directory [(''a'', Directory [(''b'', File ''hello'')])]) ''/a/x'' True False
      = (None, Directory [(''a'', Directory [(''b'', File ''hello'')])]))
   \<and> (removePath (\<lambda>ps t. None) (Directory [(''a'', Directory [(''b'', File ''hello'')])]) ''/z/x'' False False
      = (Some ErrNotExist, Directory [(''a'', Directory [(''b'', File ''hello'')])])
    \<and> removePath (\<lambda>ps t. None) (Directory [(''a'', Directory [(''b'', File ''hello'')])]) ''/z/x'' True False
      = (None, Directory [(''a'', Directory [(''b'', File ''hello'')])]))"
proof -
  let ?t = "Directory [(''a'', Directory [(''b'', File ''hello'')])]"
  have entry: "Lookup ?t ''/a/x'' = Inl ErrNotExist"
    by (simp add: Lookup_def pathParts_def)
  have parent: "Lookup ?t ''/z/x'' = Inl ErrNotExist"
    by (simp add: Lookup_def pathParts_def)
  have ne: "''/a/x'' \<noteq> []" "''/z/x'' \<noteq> []"
    by simp_all
  show ?thesis
    using removePath_missing[OF ne(1) entry, of "\<lambda>ps t. None" False]
      removePath_missing[OF ne(2) parent, of "\<lambda>ps t. None" False]
    by simp
qed

section \<open>The root cannot be removed\<close>

text \<open>
  Claim C3. Removing the root path \<^verbatim>\<open>/\<close> fails with the cannot-delete-root error,
  whatever the options \<open>force\<close> and \<open>dashr\<close>, and leaves the tree unchanged. This holds
  of \<^verbatim>\<open>removePath\<close> and of the command, which reports the error for the path and
  returns its combined failure.
\<close>

theorem remove_root_fails:
  "removePath flush filesRoot ''/'' force dashr = (Some ErrCannotDeleteRoot, filesRoot)
   \<and> filesRmCmd flush force dashr filesRoot [''/''] =
       \<lparr>rmEmitted = [ErrWrap ''/'' ErrCannotDeleteRoot],
        rmError = Some ErrCantRemoveSomeFiles, rmRoot = filesRoot\<rparr>"
  by (simp add: removePath_def filesRmCmd_def checkPath_root)

text \<open>The instance with both options set, on a tree with one file.\<close>

theorem remove_root_fails_witness:
  "removePath (\<lambda>ps t. None) (Directory [(''f'', File ''ab'')]) ''/'' True True =
     (Some ErrCannotDeleteRoot, Directory [(''f'', File ''ab'')])
   \<and> filesRmCmd (\<lambda>ps t. None) True True (Directory [(''f'', File ''ab'')]) [''/''] =
       \<lparr>rmEmitted = [ErrWrap ''/'' ErrCannotDeleteRoot],
        rmError = Some ErrCantRemoveSomeFiles, rmRoot = Directory [(''f'', File ''ab'')]\<rparr>"
  using remove_root_fails[of "\<lambda>ps t. None" "Directory [(''f'', File ''ab'')]" True True]
  by simp

section \<open>Offsets and counts of a read\<close>

text \<open>
  Claim C1, as stated, does not hold of \<^verbatim>\<open>filesReadCmd\<close>: the file \<^verbatim>\<open>/f\<close> holds two
  bytes, the offset 3 is non-negative and strictly greater than the content length, and
  the read fails with the offset-past-end error instead of yielding zero bytes.
\<close>

theorem read_past_end_counterexample:
  "checkPath ''/f'' = Inr ''/f''
   \<and> Lookup (Directory [(''f'', File ''ab'')]) ''/f'' = Inr (File ''ab'')
   \<and> (0::int) \<le> 3 \<and> (3::int) > int (length ''ab'')
   \<and> filesReadCmd (Directory [(''f'', File ''ab'')]) ''/f'' (Some 3) None
       = Inl (ErrOffsetPastEnd 3 2)"
  by (simp add: filesReadCmd_def checkPath_def Clean_def Lookup_def pathParts_def)

text \<open>
  Claim C1, amended. For every file at a resolvable path, a read whose offset equals the
  content length, with no count or a non-negative one, succeeds and yields zero bytes; a
  read whose offset is strictly greater than the content length fails with the
  offset-past-end error.
\<close>

theorem read_at_end:
  assumes "checkPath arg = Inr path"
    and "Lookup filesRoot path = Inr (File data)"
  shows "(offset = int (length data) \<and> (\<forall>c. countOpt = Some c \<longrightarrow> 0 \<le> c) \<longrightarrow>
            filesReadCmd filesRoot arg (Some offset) countOpt = Inr [])
       \<and> (offset > int (length data) \<longrightarrow>
            filesReadCmd filesRoot arg (Some offset) countOpt =
              Inl (ErrOffsetPastEnd offset (int (length data))))"
  using assms by (auto simp: filesReadCmd_def split: option.splits)

text \<open>On the two-byte file: offset 2 yields nothing, offset 3 is refused.\<close>

theorem read_at_end_witness:
  "filesReadCmd (Directory [(''f'', File ''ab'')]) ''/f'' (Some 2) (Some 5) = Inr []
   \<and> filesReadCmd (Directory [(''f'', File ''ab'')]) ''/f'' (Some 3) (Some 5) =
        Inl (ErrOffsetPastEnd 3 2)"
proof -
  have c: "checkPath ''/f'' = Inr ''/f''"
    by (simp add: checkPath_def Clean_def)
  have l: "Lookup (Directory [(''f'', File ''ab'')]) ''/f'' = Inr (File ''ab'')"
    by (simp add: Lookup_def pathParts_def)
  show ?thesis
    using read_at_end[OF c l, of 2 "Some 5"] read_at_end[OF c l, of 3 "Some 5"]
    by simp
qed

text \<open>
  Claim C2. A read fails with an error, and so produces no bytes, whenever the requested
  offset is negative, or a count is supplied and is negative, or the path resolves to a
  file and the offset is past the end of its content.
\<close>

theorem read_rejects:
  assumes "(\<exists>off. offsetOpt = Some off \<and> off < 0)
         \<or> (\<exists>c. countOpt = Some c \<and> c < 0)
         \<or> (\<exists>path data off. checkPath arg = Inr path \<and> Lookup filesRoot path = Inr (File data)
               \<and> offsetOpt = Some off \<and> off > int (length data))"
  shows "\<exists>err. filesReadCmd filesRoot arg offsetOpt countOpt = Inl err"
  using assms
  by (auto simp: filesReadCmd_def Let_def split: sum.splits mfsNode.splits option.splits)

text \<open>The three cases on the two-byte file \<^verbatim>\<open>/f\<close>.\<close>

theorem read_rejects_witness:
  "(\<exists>err. filesReadCmd (Directory [(''f'', File ''ab'')]) ''/f'' (Some (- 1)) None = Inl err)
   \<and> (\<exists>err. filesReadCmd (Directory [(''f'', File ''ab'')]) ''/f'' (Some 1) (Some (- 4)) = Inl err)
   \<and> (\<exists>err. filesReadCmd (Directory [(''f'', File ''ab'')]) ''/f'' (Some 3) None = Inl err)"
proof -
  have c: "checkPath ''/f'' = Inr ''/f''"
    by (simp add: checkPath_def Clean_def)
  have l: "Lookup (Directory [(''f'', File ''ab'')]) ''/f'' = Inr (File ''ab'')"
    by (simp add: Lookup_def pathParts_def)
  have h1: "(\<exists>off. Some (- 1 :: int) = Some off \<and> off < 0)
         \<or> (\<exists>c. (None :: int option) = Some c \<and> c < 0)
         \<or> (\<exists>path data off. checkPath ''/f'' = Inr path \<and> Lookup (Directory [(''f'', File ''ab'')]) path = Inr (File data)
               \<and> Some (- 1 :: int) = Some off \<and> off > int (length data))"
    by simp
  have h2: "(\<exists>off. Some (1 :: int) = Some off \<and> off < 0)
         \<or> (\<exists>c. Some (- 4 :: int) = Some c \<and> c < 0)
         \<or> (\<exists>path data off. checkPath ''/f'' = Inr path \<and> Lookup (Directory [(''f'', File ''ab'')]) path = Inr (File data)
               \<and> Some (1 :: int) = Some off \<and> off > int (length data))"
    by simp
  have h3: "(\<exists>off. Some (3 :: int) = Some off \<and> off < 0)
         \<or> (\<exists>c. (None :: int option) = Some c \<and> c < 0)
         \<or> (\<exists>path data off. checkPath ''/f'' = Inr path \<and> Lookup (Directory [(''f'', File ''ab'')]) path = Inr (File data)
               \<and> Some (3 :: int) = Some off \<and> off > int (length data))"
    using c l by simp
  show ?thesis
    using read_rejects[OF h1] read_rejects[OF h2] read_rejects[OF h3] by simp
qed

section \<open>Removal of several paths\<close>






section \<open>The local-only walk reports what is present\<close>

text \<open>
  The loop over the links, from any state \<open>local\<close>, \<open>sizeLocal\<close>: when no lookup fails
  with an error other than not-found, the loop runs to the end of the links.
\<close>

lemma walk_correct:
  "(\<not> faulty nd \<longrightarrow> walkBlock nd = (\<not> missed nd, localBytes nd, None))"
  "(\<not> linksFaulty links \<longrightarrow>
      walkLinks links local sizeLocal =
        (local \<and> \<not> linksMissed links, sizeLocal + linksBytes links, None))"
proof (induction nd and links local sizeLocal rule: walkBlock_walkLinks.induct)
  case (1 ty codec raw payload links)
  then show ?case by simp
next
  case (2 local sizeLocal)
  then show ?case by simp
next
  case (3 n links local sizeLocal)
  then show ?case by simp
next
  case (4 n e links local sizeLocal)
  then show ?case by simp
next
  case (5 n child links local sizeLocal)
  show ?case
  proof
    assume nf: "\<not> linksFaulty (IpldLink n (Found child) # links)"
    then have c: "walkBlock child = (\<not> missed child, localBytes child, None)"
      using "5.IH"(1) by simp
    from nf have "\<not> linksFaulty links" by simp
    with "5.IH"(2)[of "\<not> missed child" "(localBytes child, None)" "localBytes child" None] c
    have "walkLinks links (local \<and> \<not> missed child) (sizeLocal + localBytes child) =
            (local \<and> \<not> missed child \<and> \<not> linksMissed links,
             sizeLocal + localBytes child + linksBytes links, None)"
      by simp
    with c show "walkLinks (IpldLink n (Found child) # links) local sizeLocal =
        (local \<and> \<not> linksMissed (IpldLink n (Found child) # links),
         sizeLocal + linksBytes (IpldLink n (Found child) # links), None)"
      by (auto simp: add.assoc)
  qed
qed

text \<open>A lookup that fails otherwise is reached by the walk, which then returns an error.\<close>

lemma walk_faulty:
  "(faulty nd \<longrightarrow> snd (snd (walkBlock nd)) \<noteq> None)"
  "(linksFaulty links \<longrightarrow> snd (snd (walkLinks links local sizeLocal)) \<noteq> None)"
proof (induction nd and links local sizeLocal rule: walkBlock_walkLinks.induct)
  case (5 n child links local sizeLocal)
  obtain cl cs ce where w: "walkBlock child = (cl, cs, ce)"
    by (cases "walkBlock child")
  show ?case
  proof (cases ce)
    case None
    with w "5.IH"(1) have "\<not> faulty child" by auto
    with "5.IH"(2)[of cl "(cs, ce)" cs ce] w None show ?thesis by simp
  next
    case (Some err)
    with w show ?thesis by simp
  qed
qed simp_all

text \<open>
  Claim C7. For every DAG node in whose walk no lookup fails with an error other than
  not-found, \<^verbatim>\<open>walkBlock\<close> returns no error and the pair (\<open>local\<close>, \<open>sizeLocal\<close>) where
  \<open>sizeLocal\<close> is the number of bytes of the root block plus, for each link whose child
  is locally present, the bytes computed for that child's subtree, the links after a miss
  included, and \<open>local\<close> is true if and only if no lookup anywhere in the walk missed.
  The additions are those of \<^verbatim>\<open>uint64\<close>. When some lookup fails with another error,
  the walk returns an error.
\<close>

theorem walkBlock_local:
  "(\<not> faulty nd \<longrightarrow> walkBlock nd = (\<not> missed nd, localBytes nd, None))
   \<and> (faulty nd \<longrightarrow> snd (snd (walkBlock nd)) \<noteq> None)"
  using walk_correct(1) walk_faulty(1) by blast

text \<open>
  A node of 3 bytes with a present child of 4 bytes, a missing child and a present child
  of 2 bytes: not fully local, 9 bytes local. And a node whose first lookup times out.
\<close>

theorem walkBlock_local_witness:
  "walkBlock (IpldNode ProtoNode DagProtobuf ''abc'' ''d''
      [IpldLink ''l1'' (Found (IpldNode RawNode Raw ''xxxx'' [] [])),
       IpldLink ''l2'' NotFound,
       IpldLink ''l3'' (Found (IpldNode RawNode Raw ''yy'' [] []))])
   = (False, 9, None)
   \<and> snd (snd (walkBlock (IpldNode ProtoNode DagProtobuf ''abc'' ''d''
        [IpldLink ''l1'' (GetFailed ''timeout''),
         IpldLink ''l2'' (Found (IpldNode RawNode Raw ''yy'' [] []))]))) \<noteq> None"
proof -
  let ?nd = "IpldNode ProtoNode DagProtobuf ''abc'' ''d''
      [IpldLink ''l1'' (Found (IpldNode RawNode Raw ''xxxx'' [] [])),
       IpldLink ''l2'' NotFound,
       IpldLink ''l3'' (Found (IpldNode RawNode Raw ''yy'' [] []))]"
  let ?bad = "IpldNode ProtoNode DagProtobuf ''abc'' ''d''
        [IpldLink ''l1'' (GetFailed ''timeout''),
         IpldLink ''l2'' (Found (IpldNode RawNode Raw ''yy'' [] []))]"
  have h: "\<not> faulty ?nd" by simp
  have b: "faulty ?bad" by simp
  show ?thesis
    using walkBlock_local[of ?nd] walkBlock_local[of ?bad] h b by simp
qed

section \<open>The copy attaches recognised content only\<close>

text \<open>The switch on the codec lets through exactly the recognised content.\<close>

lemma cpSanityCheck_recognized:
  "cpSanityCheck env node = None \<longleftrightarrow> recognizedContent env node"
  by (cases "cidType node"; cases "nodeType node"; cases "FSNodeFromBytes env (Data node)")
     (simp_all add: cpSanityCheck_def recognizedContent_def)

lemma cpSanityCheck_error:
  "cpSanityCheck env node = Some err \<Longrightarrow> invalidContentError err"
  by (cases "cidType node"; cases "nodeType node"; cases "FSNodeFromBytes env (Data node)")
     (auto simp: cpSanityCheck_def)

text \<open>
  Claim C4. For every copy whose source resolves to a DAG node: if the node is not a raw
  leaf block and not a structured (dag-pb) node whose payload decodes as a file system
  node, the copy fails with an invalid-content error and the tree is the one it was given,
  whatever the library would do to attach a node; and if the copy succeeds, the node is
  of one of these two kinds.
\<close>

theorem filesCpCmd_validates:
  assumes "prefixRes = Inr prefix"
    and "checkPath srcArg = Inr src0"
    and "checkPath dstArg = Inr dst0"
    and "getNodeFromPath env filesRoot (TrimRightSlash src0) = Inr node"
  shows "(\<not> recognizedContent env node \<longrightarrow>
            (\<exists>err. filesCpCmd env filesRoot prefixRes srcArg dstArg mkParents force flush =
                     (Some err, filesRoot) \<and> invalidContentError err))
       \<and> (fst (filesCpCmd env filesRoot prefixRes srcArg dstArg mkParents force flush) = None \<longrightarrow>
            recognizedContent env node)"
proof (cases "cpSanityCheck env node")
  case None
  then show ?thesis by (simp add: cpSanityCheck_recognized)
next
  case (Some err)
  then have "\<not> recognizedContent env node"
    by (simp add: cpSanityCheck_recognized[symmetric])
  moreover from Some assms
  have "filesCpCmd env filesRoot prefixRes srcArg dstArg mkParents force flush = (Some err, filesRoot)"
    by (simp add: filesCpCmd_def)
  ultimately show ?thesis
    using cpSanityCheck_error[OF Some] by simp
qed

text \<open>
  Three copies into an empty tree: a dag-cbor node and a dag-pb node with an undecodable
  payload are refused and leave the tree empty, a raw block is attached.
\<close>

theorem filesCpCmd_validates_witness:
  "filesCpCmd exampleEnv (Directory []) (Inr None) ''/ipfs/cbor'' ''/x'' False False False =
     (Some ErrFilesCpInvalidUnixFS, Directory [])
   \<and> filesCpCmd exampleEnv (Directory []) (Inr None) ''/ipfs/pb'' ''/x'' False False False =
     (Some (ErrFilesCpInvalidUnixFSWrap (ErrStore ''unmarshal'')), Directory [])
   \<and> filesCpCmd exampleEnv (Directory []) (Inr None) ''/ipfs/raw'' ''/x'' False False False =
     (None, Directory [(''x'', File ''data'')])
   \<and> recognizedContent exampleEnv (IpldNode RawNode Raw ''data'' [] [])"
proof -
  have c: "checkPath ''/ipfs/cbor'' = Inr ''/ipfs/cbor''" "checkPath ''/ipfs/pb'' = Inr ''/ipfs/pb''"
    "checkPath ''/ipfs/raw'' = Inr ''/ipfs/raw''" "checkPath ''/x'' = Inr ''/x''"
    by (simp_all add: checkPath_def Clean_def)
  have t: "TrimRightSlash ''/ipfs/cbor'' = ''/ipfs/cbor''" "TrimRightSlash ''/ipfs/pb'' = ''/ipfs/pb''"
    "TrimRightSlash ''/ipfs/raw'' = ''/ipfs/raw''"
    by (simp_all add: TrimRightSlash_def)
  have g1: "getNodeFromPath exampleEnv (Directory []) (TrimRightSlash ''/ipfs/cbor'') =
              Inr (IpldNode OtherNode (OtherCodec 113) ''data'' [] [])"
    by (simp add: t getNodeFromPath_def hasIpfsPrefix_def exampleEnv_def)
  have g2: "getNodeFromPath exampleEnv (Directory []) (TrimRightSlash ''/ipfs/pb'') =
              Inr (IpldNode ProtoNode DagProtobuf ''data'' ''junk'' [])"
    by (simp add: t getNodeFromPath_def hasIpfsPrefix_def exampleEnv_def)
  have g3: "getNodeFromPath exampleEnv (Directory []) (TrimRightSlash ''/ipfs/raw'') =
              Inr (IpldNode RawNode Raw ''data'' [] [])"
    by (simp add: t getNodeFromPath_def hasIpfsPrefix_def exampleEnv_def)
  have d: "FSNodeFromBytes exampleEnv ''junk'' = Some (ErrStore ''unmarshal'')"
    by (simp add: exampleEnv_def)
  have p: "PutNode exampleEnv (Directory []) ''/x'' (IpldNode RawNode Raw ''data'' [] []) =
             Inr (Directory [(''x'', File ''data'')])"
    by (simp add: exampleEnv_def Base_def TrimRightSlash_def)
  have n1: "\<not> recognizedContent exampleEnv (IpldNode OtherNode (OtherCodec 113) ''data'' [] [])"
    by (simp add: recognizedContent_def)
  have n2: "\<not> recognizedContent exampleEnv (IpldNode ProtoNode DagProtobuf ''data'' ''junk'' [])"
    by (simp add: recognizedContent_def d)
  have e1: "filesCpCmd exampleEnv (Directory []) (Inr None) ''/ipfs/cbor'' ''/x'' False False False =
     (Some ErrFilesCpInvalidUnixFS, Directory [])"
    by (simp add: filesCpCmd_def c g1 cpSanityCheck_def)
  have e2: "filesCpCmd exampleEnv (Directory []) (Inr None) ''/ipfs/pb'' ''/x'' False False False =
     (Some (ErrFilesCpInvalidUnixFSWrap (ErrStore ''unmarshal'')), Directory [])"
    by (simp add: filesCpCmd_def c g2 cpSanityCheck_def d)
  have e3: "filesCpCmd exampleEnv (Directory []) (Inr None) ''/ipfs/raw'' ''/x'' False False False =
     (None, Directory [(''x'', File ''data'')])"
    by (simp add: filesCpCmd_def c g3 cpSanityCheck_def cpAttach_def p)
  from filesCpCmd_validates[where mkParents=False and force=False and flush=False and prefix=None,
      OF refl c(1) c(4) g1] n1
    filesCpCmd_validates[where mkParents=False and force=False and flush=False and prefix=None,
      OF refl c(2) c(4) g2] n2
    filesCpCmd_validates[where mkParents=False and force=False and flush=False and prefix=None,
      OF refl c(3) c(4) g3] e3
  have "recognizedContent exampleEnv (IpldNode RawNode Raw ''data'' [] [])"
    by simp
  with e1 e2 e3 show ?thesis by simp
qed

section \<open>The order of a listing\<close>

text \<open>
  Sorting by the comparison of the names is the sort by the key \<open>Name\<close> in the
  lexicographic order of strings.
\<close>

lemma cmp_le: "strings_Compare a b \<le> 0 \<longleftrightarrow> a \<le> b"
  by (auto simp: strings_Compare_def)

lemma insertSorted_Name:
  "insertSorted (\<lambda>a b. strings_Compare (Name a) (Name b)) x ys = insort_key Name x ys"
  by (induction ys) (simp_all add: cmp_le)

lemma SortFunc_Name:
  "slices_SortFunc (\<lambda>a b. strings_Compare (Name a) (Name b)) xs = sort_key Name xs"
  by (induction xs) (simp_all add: slices_SortFunc_def insertSorted_Name)

lemma Name_nodeListing: "Name (nodeListing hashOf e) = fst e"
  by (cases "(hashOf, e)" rule: nodeListing.cases) simp_all

lemma filesLsRun_directory:
  assumes "checkPath arg = Inr path"
    and "Lookup filesRoot path = Inr (Directory es)"
  shows "\<exists>outEntries. filesLsRun hashOf filesRoot [arg] long = Inr outEntries
           \<and> map Name outEntries = map fst es"
  using assms
  by (cases long) (simp_all add: filesLsRun_def ListNames_def List_entries_def comp_def
      Name_nodeListing)

text \<open>
  Claim C8. For every listing of a directory, the entries that the command emits bear
  the names of the directory's entries in the directory's own order. With the option not
  to sort, the text encoder writes one line for each of them in that order, without
  reordering. By default it writes the lines of the same entries sorted
  lexicographically by name.
\<close>

theorem filesLs_order:
  assumes "checkPath arg = Inr path"
    and "Lookup filesRoot path = Inr (Directory es)"
  shows "\<exists>outEntries.
           filesLsRun hashOf filesRoot [arg] long = Inr outEntries
         \<and> map Name outEntries = map fst es
         \<and> filesLsText True long outEntries = map (lsLine long) outEntries
         \<and> (\<exists>sortedEntries.
               filesLsText False long outEntries = map (lsLine long) sortedEntries
             \<and> mset sortedEntries = mset outEntries
             \<and> sorted (map Name sortedEntries))"
proof -
  from filesLsRun_directory[OF assms, of hashOf long]
  obtain outEntries where run: "filesLsRun hashOf filesRoot [arg] long = Inr outEntries"
    and names: "map Name outEntries = map fst es"
    by blast
  have "filesLsText False long outEntries = map (lsLine long) (sort_key Name outEntries)"
    by (simp add: filesLsText_def SortFunc_Name)
  moreover have "mset (sort_key Name outEntries) = mset outEntries"
    by simp
  moreover have "sorted (map Name (sort_key Name outEntries))"
    by simp
  moreover have "filesLsText True long outEntries = map (lsLine long) outEntries"
    by (simp add: filesLsText_def)
  ultimately show ?thesis
    using run names by blast
qed

text \<open>The root directory with the entries \<open>b\<close>, \<open>a\<close>, \<open>B\<close>, listed both ways.\<close>

theorem filesLs_order_witness:
  "filesLsRun (\<lambda>nd. ''Qm'') (Directory [(''b'', File ''x''), (''a'', Directory []), (''B'', File [])]) [''/''] False
     = Inr [\<lparr>Name = ''b'', Type = 0, Size = 0, Hash = []\<rparr>,
            \<lparr>Name = ''a'', Type = 0, Size = 0, Hash = []\<rparr>,
            \<lparr>Name = ''B'', Type = 0, Size = 0, Hash = []\<rparr>]
   \<and> filesLsText True False [\<lparr>Name = ''b'', Type = 0, Size = 0, Hash = []\<rparr>,
            \<lparr>Name = ''a'', Type = 0, Size = 0, Hash = []\<rparr>,
            \<lparr>Name = ''B'', Type = 0, Size = 0, Hash = []\<rparr>]
     = [''b'' @ [CHR 0x0A], ''a'' @ [CHR 0x0A], ''B'' @ [CHR 0x0A]]
   \<and> filesLsText False False [\<lparr>Name = ''b'', Type = 0, Size = 0, Hash = []\<rparr>,
            \<lparr>Name = ''a'', Type = 0, Size = 0, Hash = []\<rparr>,
            \<lparr>Name = ''B'', Type = 0, Size = 0, Hash = []\<rparr>]
     = [''B'' @ [CHR 0x0A], ''a'' @ [CHR 0x0A], ''b'' @ [CHR 0x0A]]"
proof -
  let ?t = "Directory [(''b'', File ''x''), (''a'', Directory []), (''B'', File [])]"
  let ?es = "[\<lparr>Name = ''b'', Type = 0, Size = 0, Hash = []\<rparr>,
            \<lparr>Name = ''a'', Type = 0, Size = 0, Hash = []\<rparr>,
            \<lparr>Name = ''B'', Type = 0, Size = 0, Hash = []\<rparr>]"
  have c: "checkPath ''/'' = Inr ''/''"
    by (simp add: checkPath_def Clean_def)
  have l: "Lookup ?t ''/'' = Inr ?t"
    by (simp add: Lookup_def pathParts_def)
  have run: "filesLsRun (\<lambda>nd. ''Qm'') ?t [''/''] False = Inr ?es"
    by (simp add: filesLsRun_def c l ListNames_def)
  have u: "filesLsText True False ?es = [''b'' @ [CHR 0x0A], ''a'' @ [CHR 0x0A], ''B'' @ [CHR 0x0A]]"
    by (simp add: filesLsText_def lsLine_def)
  have s: "filesLsText False False ?es = [''B'' @ [CHR 0x0A], ''a'' @ [CHR 0x0A], ''b'' @ [CHR 0x0A]]"
    by (simp add: filesLsText_def lsLine_def slices_SortFunc_def strings_Compare_def)
  from filesLs_order[OF c l, of "\<lambda>nd. ''Qm''" False] run
  have "filesLsText True False ?es = map (lsLine False) ?es"
    by simp
  with run u s show ?thesis by simp
qed

section \<open>The check of a path argument\<close>

text \<open>
  An empty argument and an argument without a leading slash are refused; any other
  argument is cleaned, and a slash is put behind the cleaned path when the argument ends
  in a slash and is not \<^verbatim>\<open>/\<close> itself.
\<close>

lemma checkPath_rejects:
  "p = [] \<or> hd p \<noteq> CHR ''/'' \<Longrightarrow> \<exists>err. checkPath p = Inl err"
  by (auto simp: checkPath_def)

lemma checkPath_accepts:
  "p \<noteq> [] \<Longrightarrow> hd p = CHR ''/'' \<Longrightarrow>
   checkPath p = Inr (Clean p @ (if last p = CHR ''/'' \<and> p \<noteq> ''/'' then ''/'' else []))"
  by (simp add: checkPath_def Let_def)

text \<open>
  A refused path argument stops a command before it looks at the tree: the error of the
  check is the result, and the commands that change the tree leave it as it was.
\<close>

lemma commands_reject_bad_path:
  assumes "checkPath arg = Inl err"
  shows "filesReadCmd filesRoot arg offsetOpt countOpt = Inl err"
    and "filesLsRun hashOf filesRoot [arg] long = Inl err"
    and "rmAttempt flush force dashr filesRoot arg = (Some (ErrNotAValidPath arg err), filesRoot)"
    and "filesCpCmd env filesRoot (Inr prefix) arg dstArg mkParents force fl = (Some err, filesRoot)"
  using assms
  by (simp_all add: filesReadCmd_def filesLsRun_def rmAttempt_def filesCpCmd_def)

section \<open>The byte-level pass of Clean normalises an absolute path\<close>

lemma joinWith_snoc:
  "kept \<noteq> [] \<Longrightarrow> joinWith sep (kept @ [c]) = joinWith sep kept @ sep @ c"
  by (induction sep kept rule: joinWith.induct) auto

lemma renderAbs_snoc:
  "renderAbs (kept @ [c]) = renderAbs kept @ (if kept = [] then [] else ''/'') @ c"
  by (cases "kept = []") (simp_all add: renderAbs_def joinWith_snoc)

lemma joinWith_Nil_iff:
  "plainParts kept \<Longrightarrow> joinWith sep kept = [] \<longleftrightarrow> kept = []"
  by (induction sep kept rule: joinWith.induct) (auto simp: plainParts_def)

lemma length_renderAbs_1:
  "plainParts kept \<Longrightarrow> length (renderAbs kept) = Suc 0 \<longleftrightarrow> kept = []"
  by (simp add: renderAbs_def joinWith_Nil_iff)

lemma length_renderAbs_gt: "plainParts kept \<Longrightarrow> Suc 0 < length (renderAbs kept) \<longleftrightarrow> kept \<noteq> []"
  using length_renderAbs_1[of kept] by (auto simp: renderAbs_def)

lemma backtrackW_stop:
  assumes "t \<le> w"
    and "\<forall>i. t < i \<and> i \<le> w \<longrightarrow> buf ! i \<noteq> CHR ''/''"
    and "t = d \<or> (d < t \<and> buf ! t = CHR ''/'')"
  shows "backtrackW buf d w = t"
  using assms
proof (induction "w - t" arbitrary: w)
  case 0
  then have "w = t" by simp
  with 0 show ?case
    by (auto simp: backtrackW.simps[of buf d t])
next
  case (Suc k)
  then have w: "t < w" "buf ! w \<noteq> CHR ''/''" by auto
  with Suc.prems have "d < w" by auto
  have "backtrackW buf d (w - 1) = t"
    using Suc by (intro Suc.hyps(1)) auto
  with w \<open>d < w\<close> show ?case
    by (simp add: backtrackW.simps[of buf d w])
qed

lemma backtrack_renderAbs:
  assumes "plainParts (kept @ [c])"
  shows "take (backtrackW (renderAbs (kept @ [c])) 1 (length (renderAbs (kept @ [c])) - 1))
           (renderAbs (kept @ [c])) = renderAbs kept"
proof (cases "kept = []")
  case True
  from assms have c: "c \<noteq> []" "CHR ''/'' \<notin> set c" by (auto simp: plainParts_def)
  have "backtrackW (CHR ''/'' # c) 1 (length c) = 1"
  proof (rule backtrackW_stop)
    show "1 \<le> length c" using c by (cases c) auto
    show "\<forall>i. 1 < i \<and> i \<le> length c \<longrightarrow> (CHR ''/'' # c) ! i \<noteq> CHR ''/''"
    proof (intro allI impI)
      fix i assume i: "1 < i \<and> i \<le> length c"
      then have "(CHR ''/'' # c) ! i = c ! (i - 1)" "i - 1 < length c"
        by (auto simp: nth_Cons')
      then show "(CHR ''/'' # c) ! i \<noteq> CHR ''/''"
        using c(2) by (metis nth_mem)
    qed
    show "1 = (1::nat) \<or> (1::nat) < 1 \<and> (CHR ''/'' # c) ! 1 = CHR ''/''" by simp
  qed
  with True show ?thesis by (simp add: renderAbs_def)
next
  case False
  from assms have c: "c \<noteq> []" "CHR ''/'' \<notin> set c" and g: "plainParts kept"
    by (auto simp: plainParts_def)
  let ?pre = "renderAbs kept"
  have len: "1 < length ?pre" using g False by (simp add: length_renderAbs_gt)
  have r: "renderAbs (kept @ [c]) = ?pre @ CHR ''/'' # c"
    using False by (simp add: renderAbs_snoc)
  have "backtrackW (?pre @ CHR ''/'' # c) 1 (length ?pre + length c) = length ?pre"
  proof (rule backtrackW_stop)
    show "length ?pre \<le> length ?pre + length c" by simp
    show "\<forall>i. length ?pre < i \<and> i \<le> length ?pre + length c \<longrightarrow>
            (?pre @ CHR ''/'' # c) ! i \<noteq> CHR ''/''"
    proof (intro allI impI)
      fix i assume i: "length ?pre < i \<and> i \<le> length ?pre + length c"
      then have "(?pre @ CHR ''/'' # c) ! i = c ! (i - length ?pre - 1)"
        by (auto simp: nth_append nth_Cons')
      moreover from i have "i - length ?pre - 1 < length c" by auto
      ultimately show "(?pre @ CHR ''/'' # c) ! i \<noteq> CHR ''/''"
        using c(2) by (metis nth_mem)
    qed
    show "length ?pre = 1 \<or> 1 < length ?pre \<and> (?pre @ CHR ''/'' # c) ! length ?pre = CHR ''/''"
      using len by simp
  qed
  then show ?thesis by (simp add: r)
qed

lemma splitOn_takeWhile:
  "splitOn c xs = takeWhile (\<lambda>x. x \<noteq> c) xs #
     (case dropWhile (\<lambda>x. x \<noteq> c) xs of [] \<Rightarrow> [] | y # r \<Rightarrow> splitOn c r)"
  by (induction xs) (auto split: list.splits)

lemma plainParts_snoc: "plainParts (kept @ [c]) \<longleftrightarrow> plainParts kept \<and> c \<noteq> [] \<and> CHR ''/'' \<notin> set c"
  by (auto simp: plainParts_def)

lemma plainParts_butlast: "plainParts kept \<Longrightarrow> plainParts (butlast kept)"
  by (auto simp: plainParts_def dest: in_set_butlastD)

lemma normParts_keep:
  "c \<noteq> [] \<Longrightarrow> c \<noteq> ''.'' \<Longrightarrow> c \<noteq> ''..'' \<Longrightarrow>
   normParts kept (c # cs) = normParts (kept @ [c]) cs"
  by simp

lemma normParts_skip_slash:
  "d = [] \<or> hd d = CHR ''/'' \<Longrightarrow>
   normParts kept (splitOn CHR ''/'' d) =
   normParts kept (case d of [] \<Rightarrow> [] | y # r \<Rightarrow> splitOn CHR ''/'' r)"
  by (cases d) auto

lemma dropWhile_slash: "dropWhile (\<lambda>x. x \<noteq> c) xs = [] \<or> hd (dropWhile (\<lambda>x. x \<noteq> c) xs) = c"
  using hd_dropWhile[of "\<lambda>x. x \<noteq> c" xs] by blast

lemma cleanLoop_normParts:
  "plainParts kept \<Longrightarrow>
   cleanLoop True rest (renderAbs kept) 1 = renderAbs (normParts kept (splitOn CHR ''/'' rest))"
proof (induction rest arbitrary: kept rule: length_induct)
  case (1 rest)
  have IH: "\<And>ys k. length ys < length rest \<Longrightarrow> plainParts k \<Longrightarrow>
      cleanLoop True ys (renderAbs k) 1 = renderAbs (normParts k (splitOn CHR ''/'' ys))"
    using "1.IH" by blast
  note g = \<open>plainParts kept\<close>
  show ?case
  proof (cases rest)
    case Nil
    then show ?thesis by simp
  next
    case (Cons c r)
    consider (slash) "c = CHR ''/''"
      | (dot) "c = CHR ''.''" "r = [] \<or> hd r = CHR ''/''"
      | (dotdot) "c = CHR ''.''" "r \<noteq> []" "hd r = CHR ''.''" "tl r = [] \<or> hd (tl r) = CHR ''/''"
      | (elem) "c \<noteq> CHR ''/''" "\<not> (c = CHR ''.'' \<and> (r = [] \<or> hd r = CHR ''/''))"
          "\<not> (c = CHR ''.'' \<and> hd r = CHR ''.'' \<and> (tl r = [] \<or> hd (tl r) = CHR ''/''))"
      by (cases "c = CHR ''/''"; cases "c = CHR ''.''"; cases "r = []"; cases "hd r = CHR ''/''";
          cases "hd r = CHR ''.''"; cases "tl r = [] \<or> hd (tl r) = CHR ''/''") auto
    then show ?thesis
    proof cases
      case slash
      with Cons IH[of r kept] g show ?thesis by simp
    next
      case dot
      show ?thesis
      proof (cases r)
        case Nil
        with dot Cons show ?thesis by simp
      next
        case (Cons y r')
        with dot have y: "y = CHR ''/''" by simp
        from IH[of r kept] g \<open>rest = c # r\<close>
        have "cleanLoop True r (renderAbs kept) 1 = renderAbs (normParts kept (splitOn CHR ''/'' r))"
          by simp
        with dot Cons y \<open>rest = c # r\<close> show ?thesis by simp
      qed
    next
      case dotdot
      then obtain r2 where r: "r = CHR ''.'' # r2" and r2: "r2 = [] \<or> hd r2 = CHR ''/''"
        by (cases r) auto
      have step: "cleanLoop True rest (renderAbs kept) 1 = cleanLoop True r2 (renderAbs (butlast kept)) 1"
      proof (cases "kept = []")
        case True
        then show ?thesis
          using dotdot(1) r r2 Cons by (auto simp: renderAbs_def)
      next
        case False
        then have k: "kept = butlast kept @ [last kept]" by simp
        with g have "plainParts (butlast kept @ [last kept])" by simp
        from backtrack_renderAbs[OF this] k
        have bt: "take (backtrackW (renderAbs kept) 1 (length (renderAbs kept) - 1)) (renderAbs kept)
                    = renderAbs (butlast kept)"
          by simp
        have len: "1 < length (renderAbs kept)"
          using False g by (simp add: length_renderAbs_gt)
        have "cleanLoop True (CHR ''.'' # CHR ''.'' # r2) (renderAbs kept) 1 =
              cleanLoop True r2
                (take (backtrackW (renderAbs kept) 1 (length (renderAbs kept) - 1)) (renderAbs kept)) 1"
          using r2 len by (auto simp del: One_nat_def)
        with bt dotdot(1) r Cons show ?thesis by simp
      qed
      have "length r2 < length rest" using r Cons by simp
      from IH[OF this plainParts_butlast[OF g]]
      have ih: "cleanLoop True r2 (renderAbs (butlast kept)) 1 =
                  renderAbs (normParts (butlast kept) (splitOn CHR ''/'' r2))" .
      have "normParts kept (splitOn CHR ''/'' rest) = normParts (butlast kept) (splitOn CHR ''/'' r2)"
      proof (cases r2)
        case Nil
        with r Cons dotdot(1) show ?thesis by simp
      next
        case (Cons y r3)
        with r2 have "y = CHR ''/''" by simp
        with Cons r \<open>rest = c # r\<close> dotdot(1) show ?thesis by simp
      qed
      with step ih show ?thesis by simp
    next
      case elem
      let ?comp = "c # takeWhile (\<lambda>x. x \<noteq> CHR ''/'') r"
      let ?d = "dropWhile (\<lambda>x. x \<noteq> CHR ''/'') r"
      have tw: "takeWhile (\<lambda>x. x \<noteq> CHR ''/'') (c # r) = ?comp"
        and dw: "dropWhile (\<lambda>x. x \<noteq> CHR ''/'') (c # r) = ?d"
        using elem(1) by simp_all
      have ns: "CHR ''/'' \<notin> set ?comp"
        using elem(1) by (auto dest: set_takeWhileD)
      have nd: "?comp \<noteq> ''.''"
        using elem(2) by (auto simp: takeWhile_eq_Nil_iff)
      have ndd: "?comp \<noteq> ''..''"
      proof
        assume "?comp = ''..''"
        then have c: "c = CHR ''.''" and t: "takeWhile (\<lambda>x. x \<noteq> CHR ''/'') r = ''.''"
          by simp_all
        from t obtain r2 where r: "r = CHR ''.'' # r2"
          by (cases r) (auto split: if_splits)
        with t have "takeWhile (\<lambda>x. x \<noteq> CHR ''/'') r2 = []" by simp
        then have "r2 = [] \<or> hd r2 = CHR ''/''"
          by (simp add: takeWhile_eq_Nil_iff)
        with c r elem(3) show False by simp
      qed
      have gk: "plainParts (kept @ [?comp])"
        using g ns by (simp add: plainParts_snoc)
      have out: "(if length (renderAbs kept) \<noteq> 1 then renderAbs kept @ ''/'' else renderAbs kept) @ ?comp
                 = renderAbs (kept @ [?comp])"
        using g by (auto simp: renderAbs_snoc length_renderAbs_1)
      have "cleanLoop True (c # r) (renderAbs kept) 1 =
            cleanLoop True (dropWhile (\<lambda>x. x \<noteq> CHR ''/'') (c # r))
              ((if length (renderAbs kept) \<noteq> 1 then renderAbs kept @ ''/'' else renderAbs kept)
                 @ takeWhile (\<lambda>x. x \<noteq> CHR ''/'') (c # r)) 1"
        using elem
        by (simp only: cleanLoop.simps Let_def if_False if_True simp_thms)
      then have step: "cleanLoop True rest (renderAbs kept) 1 =
                  cleanLoop True ?d (renderAbs (kept @ [?comp])) 1"
        unfolding tw dw out Cons .
      have "length ?d < length rest"
        using Cons length_dropWhile_le[of "\<lambda>x. x \<noteq> CHR ''/''" r]
        by (simp add: less_Suc_eq_le)
      from IH[OF this gk]
      have ih: "cleanLoop True ?d (renderAbs (kept @ [?comp])) 1 =
                  renderAbs (normParts (kept @ [?comp]) (splitOn CHR ''/'' ?d))" .
      have "splitOn CHR ''/'' (c # r) =
              takeWhile (\<lambda>x. x \<noteq> CHR ''/'') (c # r) #
              (case dropWhile (\<lambda>x. x \<noteq> CHR ''/'') (c # r) of [] \<Rightarrow> []
               | y # r' \<Rightarrow> splitOn CHR ''/'' r')"
        by (rule splitOn_takeWhile)
      then have "splitOn CHR ''/'' rest = ?comp # (case ?d of [] \<Rightarrow> [] | y # r' \<Rightarrow> splitOn CHR ''/'' r')"
        unfolding tw dw Cons .
      then have "normParts kept (splitOn CHR ''/'' rest) =
                 normParts (kept @ [?comp]) (case ?d of [] \<Rightarrow> [] | y # r' \<Rightarrow> splitOn CHR ''/'' r')"
        using normParts_keep[OF _ nd ndd] by simp
      also have "\<dots> = normParts (kept @ [?comp]) (splitOn CHR ''/'' ?d)"
        by (rule normParts_skip_slash[symmetric]) (rule dropWhile_slash)
      finally show ?thesis using step ih by simp
    qed
  qed
qed

lemma Clean_normalizeAbs:
  assumes "p \<noteq> []" and "hd p = CHR ''/''"
  shows "Clean p = normalizeAbs p"
proof -
  from assms obtain r where p: "p = CHR ''/'' # r" by (cases p) auto
  have "plainParts []" by (simp add: plainParts_def)
  from cleanLoop_normParts[OF this, of r]
  have "cleanLoop True r ''/'' 1 = renderAbs (normParts [] (splitOn CHR ''/'' r))"
    by (simp add: renderAbs_def)
  then show ?thesis
    by (simp add: Clean_def p normalizeAbs_def renderAbs_def)
qed

lemma normParts_plain:
  "plainParts kept \<Longrightarrow> \<forall>c\<in>set cs. CHR ''/'' \<notin> set c \<Longrightarrow> plainParts (normParts kept cs)"
proof (induction cs arbitrary: kept)
  case Nil
  then show ?case by simp
next
  case (Cons c cs)
  from Cons.prems have cs: "\<forall>c\<in>set cs. CHR ''/'' \<notin> set c" and c: "CHR ''/'' \<notin> set c"
    by simp_all
  consider (skip) "c = [] \<or> c = ''.''" | (up) "c = ''..''"
    | (keep) "c \<noteq> []" "c \<noteq> ''.''" "c \<noteq> ''..''"
    by blast
  then show ?case
  proof cases
    case skip
    have "normParts kept (c # cs) = normParts kept cs"
      using skip by auto
    with Cons.IH[OF Cons.prems(1) cs] show ?thesis by simp
  next
    case up
    have "normParts kept (c # cs) = normParts (butlast kept) cs"
      using up by simp
    with Cons.IH[OF plainParts_butlast[OF Cons.prems(1)] cs] show ?thesis by simp
  next
    case keep
    have k: "normParts kept (c # cs) = normParts (kept @ [c]) cs"
      using keep by simp
    have "plainParts (kept @ [c])"
      using Cons.prems(1) c keep(1) by (simp add: plainParts_snoc)
    from Cons.IH[OF this cs] k show ?thesis by simp
  qed
qed

lemma normParts_no_dots:
  "\<forall>c\<in>set kept. c \<noteq> ''.'' \<and> c \<noteq> ''..'' \<Longrightarrow>
   \<forall>c\<in>set (normParts kept cs). c \<noteq> ''.'' \<and> c \<noteq> ''..''"
proof (induction cs arbitrary: kept)
  case Nil
  then show ?case by simp
next
  case (Cons c cs)
  consider (skip) "c = [] \<or> c = ''.''" | (up) "c = ''..''"
    | (keep) "c \<noteq> []" "c \<noteq> ''.''" "c \<noteq> ''..''"
    by blast
  then show ?case
  proof cases
    case skip
    have "normParts kept (c # cs) = normParts kept cs"
      using skip by auto
    with Cons.IH[OF Cons.prems] show ?thesis by simp
  next
    case up
    have b: "\<forall>c\<in>set (butlast kept). c \<noteq> ''.'' \<and> c \<noteq> ''..''"
      using Cons.prems by (meson in_set_butlastD)
    have "normParts kept (c # cs) = normParts (butlast kept) cs"
      using up by simp
    with Cons.IH[OF b] show ?thesis by simp
  next
    case keep
    have k: "normParts kept (c # cs) = normParts (kept @ [c]) cs"
      using keep by simp
    have "\<forall>c\<in>set (kept @ [c]). c \<noteq> ''.'' \<and> c \<noteq> ''..''"
      using Cons.prems keep by simp
    from Cons.IH[OF this] k show ?thesis by simp
  qed
qed

lemma plainParts_normalized: "plainParts (normParts [] (splitOn CHR ''/'' p))"
  by (rule normParts_plain) (auto simp: plainParts_def dest: splitOn_no_sep)

lemma pathParts_renderAbs: "plainParts kept \<Longrightarrow> pathParts (renderAbs kept) = kept"
  unfolding renderAbs_def by (rule pathParts_join) (simp add: plainParts_def)

lemma splitOn_renderAbs:
  "plainParts kept \<Longrightarrow> kept \<noteq> [] \<Longrightarrow> splitOn CHR ''/'' (renderAbs kept) = [] # kept"
  using splitOn_joinWith[of kept "CHR ''/''"] by (simp add: renderAbs_def plainParts_def)

lemma splitOn_snoc_sep: "splitOn c (xs @ [c]) = splitOn c xs @ [[]]"
  using splitOn_sep_append[of c xs "[]"] by simp

text \<open>
  What \<^verbatim>\<open>checkPath\<close> returns for an absolute argument: the normalised path, followed by
  a slash when the argument ends in one and is not \<^verbatim>\<open>/\<close> itself. The components that a
  walk of the result visits are the normalised components, none of which is \<open>.\<close> or
  \<open>..\<close>.
\<close>

lemma checkPath_normalizes:
  assumes "p \<noteq> []" and "hd p = CHR ''/''"
  shows "checkPath p =
           Inr (normalizeAbs p @ (if last p = CHR ''/'' \<and> p \<noteq> ''/'' then ''/'' else []))"
    and "pathParts (projr (checkPath p)) = normParts [] (splitOn CHR ''/'' p)"
    and "\<forall>c\<in>set (pathParts (projr (checkPath p))). c \<noteq> ''.'' \<and> c \<noteq> ''..''"
proof -
  show c: "checkPath p =
           Inr (normalizeAbs p @ (if last p = CHR ''/'' \<and> p \<noteq> ''/'' then ''/'' else []))"
    using assms by (simp add: checkPath_accepts Clean_normalizeAbs)
  have n: "pathParts (normalizeAbs p) = normParts [] (splitOn CHR ''/'' p)"
    by (simp add: normalizeAbs_def pathParts_renderAbs plainParts_normalized)
  then show p: "pathParts (projr (checkPath p)) = normParts [] (splitOn CHR ''/'' p)"
    by (simp add: c pathParts_snoc_slash)
  show "\<forall>c\<in>set (pathParts (projr (checkPath p))). c \<noteq> ''.'' \<and> c \<noteq> ''..''"
    unfolding p by (rule normParts_no_dots) simp
qed

text \<open>
  When the argument does not normalise to the root, the result has no redundant
  separator: cut at its slashes it gives the empty piece before the leading slash, the
  normalised components, and one empty piece more exactly when the argument ends in a
  slash.
\<close>

lemma checkPath_no_redundant_separator:
  assumes "p \<noteq> []" and "hd p = CHR ''/''"
    and "normParts [] (splitOn CHR ''/'' p) \<noteq> []"
  shows "splitOn CHR ''/'' (projr (checkPath p)) =
           [] # normParts [] (splitOn CHR ''/'' p) @ (if last p = CHR ''/'' then [[]] else [])"
proof -
  let ?kept = "normParts [] (splitOn CHR ''/'' p)"
  have s: "splitOn CHR ''/'' (normalizeAbs p) = [] # ?kept"
    using assms(3) by (simp add: normalizeAbs_def splitOn_renderAbs plainParts_normalized)
  have "normParts [] (splitOn CHR ''/'' ''/'') = []" by simp
  with assms(3) have "p \<noteq> ''/''" by metis
  then show ?thesis
    using s splitOn_snoc_sep[of "CHR ''/''" "normalizeAbs p"]
    by (simp add: checkPath_normalizes(1)[OF assms(1,2)])
qed

section \<open>Where a path argument escapes the check\<close>

text \<open>
  Claim C9 says that every operation that accepts a path refuses an empty argument and
  an argument without a leading slash before it touches the tree, and that an accepted
  path comes out normalised, with redundant separators collapsed and a single trailing
  slash kept for paths other than the root. Two inputs on which the code does otherwise:

  \<^item> \<^verbatim>\<open>filesFlushCmd\<close> hands its argument to the library without calling
    \<^verbatim>\<open>checkPath\<close>, as \<^verbatim>\<open>filesChcidCmd\<close> does: the relative argument \<^verbatim>\<open>a\<close> and the
    empty argument, both of which \<^verbatim>\<open>checkPath\<close> refuses, are resolved and flushed.

  \<^item> The argument \<^verbatim>\<open>//\<close> names the root: its cleaned form is \<^verbatim>\<open>/\<close>, but since the
    argument is not literally \<^verbatim>\<open>/\<close> and ends in a slash, \<^verbatim>\<open>checkPath\<close> returns
    \<^verbatim>\<open>//\<close>, with the redundant separator; so it does for \<^verbatim>\<open>/a/../\<close>. The test for
    the root in \<^verbatim>\<open>removePath\<close> compares with \<^verbatim>\<open>/\<close> and does not fire on this result:
    a forced removal of \<^verbatim>\<open>//\<close> returns no error.
\<close>

theorem path_check_gaps:
  "checkPath ''a'' = Inl ErrPathNoLeadingSlash
   \<and> filesFlushCmd (\<lambda>nd. ''Qm'') (Directory [(''a'', Directory [])]) [''a''] = Inr ''Qm''
   \<and> checkPath [] = Inl ErrPathEmpty
   \<and> filesFlushCmd (\<lambda>nd. ''Qm'') (Directory [(''a'', Directory [])]) [[]] = Inr ''Qm''
   \<and> Clean ''//'' = ''/''
   \<and> checkPath ''//'' = Inr ''//''
   \<and> checkPath ''/a/../'' = Inr ''//''
   \<and> removePath (\<lambda>ps t. None) (Directory [(''f'', File ''ab'')]) ''//'' True False =
       (None, Directory [(''f'', File ''ab'')])"
proof -
  have "checkPath ''a'' = Inl ErrPathNoLeadingSlash" "checkPath [] = Inl ErrPathEmpty"
    by (simp_all add: checkPath_def)
  moreover have "filesFlushCmd (\<lambda>nd. ''Qm'') (Directory [(''a'', Directory [])]) [''a''] = Inr ''Qm''"
    "filesFlushCmd (\<lambda>nd. ''Qm'') (Directory [(''a'', Directory [])]) [[]] = Inr ''Qm''"
    by (simp_all add: filesFlushCmd_def mfsFlushPath_def Lookup_def pathParts_def)
  moreover have "Clean ''//'' = ''/''" "checkPath ''//'' = Inr ''//''"
    "checkPath ''/a/../'' = Inr ''//''"
    by (simp_all add: checkPath_def Clean_def backtrackW.simps)
  moreover have "removePath (\<lambda>ps t. None) (Directory [(''f'', File ''ab'')]) ''//'' True False =
       (None, Directory [(''f'', File ''ab'')])"
    by (simp add: removePath_def Split_def getParentDir_def Lookup_def pathParts_def
        Unlink_def unlinkEntries_def)
  ultimately show ?thesis by simp
qed

end
